(* ===== verification/Prelude.thy ===== *)
theory Prelude
  imports Main "HOL-Library.Word" "HOL-Library.AList" "HOL-Library.Code_Target_Nat"
begin

text \<open>
  Vocabulary shared by every component: bytes and little-endian integers, the
  two's complement reading of Go's \<open>int64\<close>, results that may be an error,
  Go maps as association lists, and the collections of facts the component
  theories add to.
\<close>

named_theorems wire_rt \<open>decoding undoes encoding\<close>
named_theorems res_simps \<open>evaluation of results that may be errors\<close>
named_theorems peg_inv \<open>operations keep the invariant of their component\<close>

section \<open>Types\<close>

type_synonym byte = "8 word"
type_synonym bytes = "byte list"

text \<open>A fallible Go function returns \<open>Inl\<close> its error or \<open>Inr\<close> its value.\<close>

type_synonym ('e, 'a) res = "'e + 'a"

text \<open>A Go map whose iteration order is never relied on: the first binding of a key counts.\<close>

type_synonym ('k, 'v) gomap = "('k \<times> 'v) list"

section \<open>Results\<close>

definition bindr :: "'e + 'a \<Rightarrow> ('a \<Rightarrow> 'e + 'b) \<Rightarrow> 'e + 'b" where
  "bindr r f = (case r of Inl e \<Rightarrow> Inl e | Inr v \<Rightarrow> f v)"

definition guardr :: "bool \<Rightarrow> 'e \<Rightarrow> 'e + unit" where
  "guardr b e = (if b then Inr () else Inl e)"

fun is_ok :: "'e + 'a \<Rightarrow> bool" where
  "is_ok (Inl e) = False"
| "is_ok (Inr v) = True"

section \<open>Little-endian integers\<close>

text \<open>The first \<open>n\<close> bytes of \<open>v\<close>, least significant first, and the number some bytes spell.\<close>

fun le_bytes :: "nat \<Rightarrow> nat \<Rightarrow> bytes" where
  "le_bytes 0 v = []"
| "le_bytes (Suc n) v = word_of_nat (v mod 256) # le_bytes n (v div 256)"

fun le_val :: "bytes \<Rightarrow> nat" where
  "le_val [] = 0"
| "le_val (b # bs) = unat b + 256 * le_val bs"

section \<open>The range of int64\<close>

definition i64 :: "int \<Rightarrow> int" where
  "i64 x = (x + 2 ^ 63) mod 2 ^ 64 - 2 ^ 63"

definition in_i64 :: "int \<Rightarrow> bool" where
  "in_i64 x \<longleftrightarrow> - (2 ^ 63) \<le> x \<and> x < 2 ^ 63"

section \<open>Go maps and slices\<close>

definition lookup :: "('k, 'v) gomap \<Rightarrow> 'k \<Rightarrow> 'v option" where
  "lookup m k = map_of m k"

definition has_key :: "('k, 'v) gomap \<Rightarrow> 'k \<Rightarrow> bool" where
  "has_key m k = (lookup m k \<noteq> None)"

definition store :: "('k, 'v) gomap \<Rightarrow> 'k \<Rightarrow> 'v \<Rightarrow> ('k, 'v) gomap" where
  "store m k v = AList.update k v m"

definition remove :: "('k, 'v) gomap \<Rightarrow> 'k \<Rightarrow> ('k, 'v) gomap" where
  "remove m k = AList.delete k m"

text \<open>The value of a key, or Go's zero value where the map has none.\<close>

definition get_or :: "('k, 'v) gomap \<Rightarrow> 'k \<Rightarrow> 'v \<Rightarrow> 'v" where
  "get_or m k z = (case lookup m k of None \<Rightarrow> z | Some v \<Rightarrow> v)"

section \<open>Facts on results\<close>

lemma bindr_simps [simp, res_simps]:
  "bindr (Inl e) f = Inl e" "bindr (Inr v) f = f v"
  by (simp_all add: bindr_def)

lemma bindr_Inr_iff: "bindr r f = Inr w \<longleftrightarrow> (\<exists>v. r = Inr v \<and> f v = Inr w)"
  by (cases r) simp_all

lemma bindr_InrE [elim!]:
  assumes "bindr r f = Inr w"
  obtains v where "r = Inr v" "f v = Inr w"
  using assms by (auto simp: bindr_Inr_iff)

lemma guardr_simps [simp, res_simps]:
  "guardr True e = Inr ()" "guardr False e = Inl e"
  by (simp_all add: guardr_def)

lemma guardr_Inr_iff [simp]: "guardr b e = Inr u \<longleftrightarrow> b"
  by (simp add: guardr_def)

lemma bind_guardr_Inr_iff: "bindr (guardr b e) f = Inr w \<longleftrightarrow> b \<and> f () = Inr w"
  by (simp add: guardr_def)

lemma is_ok_iff: "is_ok r \<longleftrightarrow> (\<exists>v. r = Inr v)"
  by (cases r) simp_all

section \<open>Facts on little-endian integers\<close>

lemma length_le_bytes [simp]: "length (le_bytes n v) = n"
  by (induction n arbitrary: v) simp_all

lemma unat_byte: "unat (b :: byte) < 256"
  by (rule order_less_le_trans [OF unsigned_less]) simp

lemma le_val_bound: "le_val bs < 256 ^ length bs"
proof (induction bs)
  case (Cons b bs)
  have "unat b < 256" by (rule unat_byte)
  with Cons show ?case by simp
qed simp

lemma le_val_le_bytes_mod: "le_val (le_bytes n v) = v mod 256 ^ n"
proof (induction n arbitrary: v)
  case (Suc n)
  have "unat (word_of_nat (v mod 256) :: byte) = v mod 256"
    by (simp add: unat_of_nat)
  with Suc show ?case
    by (simp add: mod_mult2_eq)
qed simp

lemma le_val_le_bytes [simp]: "v < 256 ^ n \<Longrightarrow> le_val (le_bytes n v) = v"
  by (simp add: le_val_le_bytes_mod)

lemma le_bytes_le_val [simp]: "le_bytes (length bs) (le_val bs) = bs"
proof (induction bs)
  case (Cons b bs)
  have b: "unat b < 256" by (rule unat_byte)
  have "(unat b + 256 * le_val bs) mod 256 = unat b" using b by simp
  moreover have "(unat b + 256 * le_val bs) div 256 = le_val bs" using b by simp
  ultimately show ?case using Cons by simp
qed simp

lemma le_bytes_inj: "a < 256 ^ n \<Longrightarrow> b < 256 ^ n \<Longrightarrow> le_bytes n a = le_bytes n b \<longleftrightarrow> a = b"
  by (metis le_val_le_bytes)

section \<open>Facts on int64\<close>

lemma i64_id: "in_i64 x \<Longrightarrow> i64 x = x"
  by (simp add: in_i64_def i64_def)

lemma in_i64_i64: "in_i64 (i64 x)"
proof -
  have "0 \<le> (x + 2 ^ 63) mod 2 ^ 64" "(x + 2 ^ 63) mod 2 ^ 64 < 2 ^ 64"
    by simp_all
  then show ?thesis unfolding in_i64_def i64_def by simp
qed

section \<open>Facts on maps\<close>

lemma lookup_store [simp]: "lookup (store m k v) k' = (if k' = k then Some v else lookup m k')"
  by (simp add: lookup_def store_def update_conv')

lemma lookup_remove [simp]: "lookup (remove m k) k' = (if k' = k then None else lookup m k')"
  by (simp add: lookup_def remove_def delete_conv')

lemma lookup_Nil [simp]: "lookup [] k = None"
  by (simp add: lookup_def)

lemma lookup_Cons [simp]: "lookup ((k, v) # m) k' = (if k' = k then Some v else lookup m k')"
  by (simp add: lookup_def)

lemma has_key_store [simp]: "has_key (store m k v) k' \<longleftrightarrow> k' = k \<or> has_key m k'"
  by (simp add: has_key_def)

lemma lookup_in_set: "lookup m k = Some v \<Longrightarrow> (k, v) \<in> set m"
  by (simp add: lookup_def map_of_SomeD)

lemma get_or_store [simp]: "get_or (store m k v) k' z = (if k' = k then v else get_or m k' z)"
  by (simp add: get_or_def)

section \<open>Facts on lists\<close>

lemma find_SomeD: "List.find P xs = Some x \<Longrightarrow> x \<in> set xs \<and> P x"
  by (induction xs) (auto split: if_splits)

lemma find_NoneD: "List.find P xs = None \<Longrightarrow> x \<in> set xs \<Longrightarrow> \<not> P x"
  by (induction xs) (auto split: if_splits)

end
