(* ===== verification/Strconv.thy ===== *)
theory Strconv
  imports Prelude
begin

text \<open>
  What the program uses of Go's \<open>strconv\<close>, \<open>encoding/hex\<close> and \<open>strings\<close> packages:
  decimal and hexadecimal text, and cutting a string at a separator.  A Go string
  is the list of its bytes, here a \<open>string\<close>.
\<close>

section \<open>Hexadecimal\<close>

definition hexdigit :: "nat \<Rightarrow> char" where
  "hexdigit n = (if n < 10 then char_of (48 + n) else char_of (87 + n))"

text \<open>\<open>hex.DecodeString\<close> accepts both cases.\<close>

definition unhexdigit :: "char \<Rightarrow> nat option" where
  "unhexdigit c = (let n = of_char c in
     if 48 \<le> n \<and> n \<le> 57 then Some (n - 48)
     else if 97 \<le> n \<and> n \<le> 102 then Some (n - 87)
     else if 65 \<le> n \<and> n \<le> 70 then Some (n - 55)
     else None)"

fun hexEncode :: "bytes \<Rightarrow> string" where
  "hexEncode [] = []"
| "hexEncode (b # bs) = hexdigit (unat b div 16) # hexdigit (unat b mod 16) # hexEncode bs"

fun hexDecode :: "string \<Rightarrow> bytes option" where
  "hexDecode [] = Some []"
| "hexDecode [c] = None"
| "hexDecode (h # l # cs) = (case (unhexdigit h, unhexdigit l, hexDecode cs) of
     (Some x, Some y, Some bs) \<Rightarrow> Some (word_of_nat (16 * x + y) # bs)
   | _ \<Rightarrow> None)"

section \<open>Decimal\<close>

definition digit :: "nat \<Rightarrow> char" where
  "digit n = char_of (48 + n)"

definition undigit :: "char \<Rightarrow> nat option" where
  "undigit c = (let n = of_char c in if 48 \<le> n \<and> n \<le> 57 then Some (n - 48) else None)"

text \<open>\<open>strconv.FormatUint(n, 10)\<close> and, for a signed argument, \<open>strconv.FormatInt\<close>.\<close>

fun formatUint :: "nat \<Rightarrow> string" where
  "formatUint n = (if n < 10 then [digit n] else formatUint (n div 10) @ [digit (n mod 10)])"

declare formatUint.simps [simp del]

definition formatInt :: "int \<Rightarrow> string" where
  "formatInt x = (if x < 0 then CHR ''-'' # formatUint (nat (- x)) else formatUint (nat x))"

fun digitsVal :: "nat \<Rightarrow> string \<Rightarrow> nat option" where
  "digitsVal a [] = Some a"
| "digitsVal a (c # cs) = (case undigit c of None \<Rightarrow> None | Some d \<Rightarrow> digitsVal (10 * a + d) cs)"

text \<open>\<open>strconv.ParseUint(s, 10, bits)\<close>: no sign, at least one digit, in range.\<close>

definition parseUint :: "nat \<Rightarrow> string \<Rightarrow> nat option" where
  "parseUint bits s = (if s = [] then None else case digitsVal 0 s of
     None \<Rightarrow> None | Some v \<Rightarrow> if v < 2 ^ bits then Some v else None)"

text \<open>\<open>strconv.ParseInt(s, 10, 64)\<close>: an optional sign, then digits, in the range of int64.\<close>

definition parseInt64 :: "string \<Rightarrow> int option" where
  "parseInt64 s = (case s of
     [] \<Rightarrow> None
   | c # cs \<Rightarrow>
       let neg = (c = CHR ''-''); body = (if c = CHR ''-'' \<or> c = CHR ''+'' then cs else s) in
       if body = [] then None else case digitsVal 0 body of
         None \<Rightarrow> None
       | Some v \<Rightarrow> if neg then (if v \<le> 2 ^ 63 then Some (- int v) else None)
                   else (if v < 2 ^ 63 then Some (int v) else None))"

section \<open>Cutting strings\<close>

text \<open>The text before and after the last \<open>sep\<close>: \<open>strings.LastIndexByte\<close> and the two slices.\<close>

fun cutLast :: "char \<Rightarrow> string \<Rightarrow> (string \<times> string) option" where
  "cutLast sep [] = None"
| "cutLast sep (c # cs) = (case cutLast sep cs of
     Some (a, b) \<Rightarrow> Some (c # a, b)
   | None \<Rightarrow> if c = sep then Some ([], cs) else None)"

text \<open>\<open>strings.Cut(s, sep)\<close> at a one-byte separator: before, after and whether it was found.\<close>

fun cut :: "char \<Rightarrow> string \<Rightarrow> string \<times> string \<times> bool" where
  "cut sep [] = ([], [], False)"
| "cut sep (c # cs) = (if c = sep then ([], cs, True)
     else case cut sep cs of (a, b, f) \<Rightarrow> (c # a, b, f))"

text \<open>\<open>strings.Split(s, sep)\<close> at a one-byte separator.\<close>

fun split_at :: "char \<Rightarrow> string \<Rightarrow> string list" where
  "split_at sep [] = [[]]"
| "split_at sep (c # cs) = (if c = sep then [] # split_at sep cs
     else case split_at sep cs of [] \<Rightarrow> [[c]] | p # ps \<Rightarrow> (c # p) # ps)"

section \<open>Round trips\<close>

lemma unhex_hexdigit [simp]: "n < 16 \<Longrightarrow> unhexdigit (hexdigit n) = Some n"
  by (auto simp: unhexdigit_def hexdigit_def Let_def)

lemma hexDecode_hexEncode [simp, wire_rt]: "hexDecode (hexEncode bs) = Some bs"
proof (induction bs)
  case (Cons b bs)
  have "unat b div 16 < 16" using unat_byte [of b] by simp
  moreover have "16 * (unat b div 16) + unat b mod 16 = unat b" by simp
  ultimately show ?case using Cons by simp
qed simp

lemma hexEncode_inj [simp]: "hexEncode a = hexEncode b \<longleftrightarrow> a = b"
  by (metis hexDecode_hexEncode option.inject)

lemma length_hexEncode [simp]: "length (hexEncode bs) = 2 * length bs"
  by (induction bs) simp_all

lemma undigit_digit [simp]: "n < 10 \<Longrightarrow> undigit (digit n) = Some n"
  by (simp add: undigit_def digit_def Let_def)

lemma digitsVal_append: "digitsVal a (s @ t) = (case digitsVal a s of None \<Rightarrow> None | Some v \<Rightarrow> digitsVal v t)"
  by (induction s arbitrary: a) (simp_all split: option.split)

lemma digitsVal_formatUint [simp]: "digitsVal 0 (formatUint n) = Some n"
proof (induction n rule: formatUint.induct)
  case (1 n)
  then show ?case by (subst formatUint.simps) (simp add: digitsVal_append)
qed

lemma formatUint_not_Nil [simp]: "formatUint n \<noteq> []"
  by (subst formatUint.simps) simp

lemma parseUint_formatUint [simp, wire_rt]: "n < 2 ^ bits \<Longrightarrow> parseUint bits (formatUint n) = Some n"
  by (simp add: parseUint_def)

lemma formatUint_inj [simp]: "formatUint a = formatUint b \<longleftrightarrow> a = b"
  by (metis digitsVal_formatUint option.inject)

lemma parseUint_bound: "parseUint bits s = Some v \<Longrightarrow> v < 2 ^ bits"
  by (auto simp: parseUint_def split: if_splits option.splits)

text \<open>Neither digits nor hexadecimal digits contain a given separator outside their alphabet.\<close>

lemma of_char_digit: "n < 10 \<Longrightarrow> of_char (digit n) = (48 + n :: nat)"
  by (simp add: digit_def)

lemma set_formatUint: "c \<in> set (formatUint n) \<Longrightarrow> 48 \<le> (of_char c :: nat) \<and> of_char c \<le> (57 :: nat)"
proof (induction n rule: formatUint.induct)
  case (1 n)
  show ?case
  proof (cases "n < 10")
    case True
    then show ?thesis using 1(2) by (subst (asm) formatUint.simps) (simp add: of_char_digit)
  next
    case False
    have "n mod 10 < 10" by simp
    with False 1 show ?thesis
      by (subst (asm) (2) formatUint.simps) (auto simp: of_char_digit)
  qed
qed

lemma sep_notin_formatUint: "(of_char c :: nat) < 48 \<or> 57 < (of_char c :: nat) \<Longrightarrow> c \<notin> set (formatUint n)"
  using set_formatUint [of c n] by auto

lemma hexdigit_code: "n < 16 \<Longrightarrow> (of_char (hexdigit n) :: nat) = (if n < 10 then 48 + n else 87 + n)"
  by (simp add: hexdigit_def)

lemma set_hexEncode: "c \<in> set (hexEncode bs) \<Longrightarrow>
    (48 \<le> (of_char c :: nat) \<and> of_char c \<le> (57 :: nat)) \<or> (97 \<le> (of_char c :: nat) \<and> of_char c \<le> (102 :: nat))"
proof (induction bs)
  case (Cons b bs)
  have h: "unat b div 16 < 16" "unat b mod 16 < 16" using unat_byte [of b] by simp_all
  have d: "\<And>n. n < 16 \<Longrightarrow> (48 \<le> (of_char (hexdigit n) :: nat) \<and> of_char (hexdigit n) \<le> (57 :: nat))
      \<or> (97 \<le> (of_char (hexdigit n) :: nat) \<and> of_char (hexdigit n) \<le> (102 :: nat))"
    by (subst (1 2 3 4) hexdigit_code) (auto split: if_splits)
  from Cons.prems consider "c = hexdigit (unat b div 16)" | "c = hexdigit (unat b mod 16)" | "c \<in> set (hexEncode bs)"
    by auto
  then show ?case
    by cases (use d [OF h(1)] d [OF h(2)] Cons.IH in blast)+
qed simp

lemma cutLast_append [simp]: "sep \<notin> set b \<Longrightarrow> cutLast sep (a @ sep # b) = Some (a, b)"
proof (induction a)
  case Nil
  then have "cutLast sep b = None" by (induction b) auto
  then show ?case by simp
qed simp

lemma cutLast_Some: "cutLast sep s = Some (a, b) \<Longrightarrow> s = a @ sep # b \<and> sep \<notin> set b"
proof (induction s arbitrary: a)
  case (Cons c s)
  have none: "cutLast sep s = None \<Longrightarrow> sep \<notin> set s"
    by (induction s) (auto split: option.splits if_splits)
  from Cons none show ?case by (auto split: option.splits if_splits)
qed simp

lemma cut_append [simp]: "sep \<notin> set a \<Longrightarrow> cut sep (a @ sep # b) = (a, b, True)"
  by (induction a) auto

lemma split_at_notin [simp]: "sep \<notin> set a \<Longrightarrow> split_at sep a = [a]"
  by (induction a) auto

lemma split_at_append [simp]: "sep \<notin> set a \<Longrightarrow> split_at sep (a @ sep # b) = a # split_at sep b"
  by (induction a) auto

end
