(* ===== verification/Wire.thy ===== *)
theory Wire
  imports Strconv
begin

text \<open>
  The transaction format: \<open>btcd/wire\<close> (outpoints, inputs, outputs, transactions,
  variable length integers) and the textual forms of \<open>btcd/chaincfg/chainhash\<close>.
  A writer is a function to bytes; a reader takes what is left of the script slab
  and of the input and returns an error or the value with what is then left.
  The hash functions are a parameter \<open>H\<close> of what hashes.
\<close>

section \<open>Data\<close>

record OutPoint =
  Hash :: bytes
  Index :: "32 word"

record TxIn =
  PreviousOutPoint :: OutPoint
  SignatureScript :: bytes
  Witness :: "bytes list"
  Sequence :: "32 word"

record TxOut =
  Value :: int
  PkScript :: bytes

record MsgTx =
  Version :: "32 word"
  TxIn :: "TxIn list"
  TxOut :: "TxOut list"
  LockTime :: "32 word"

text \<open>SHA-256 and RIPEMD-160 of SHA-256, as functions from bytes to their digest.\<close>

record hashes =
  sha256 :: "bytes \<Rightarrow> bytes"
  hash160 :: "bytes \<Rightarrow> bytes"

datatype MessageEncoding = BaseEncoding | WitnessEncoding

datatype werr = UnexpectedEOF | NonCanonicalVarInt | BadWitnessFlag | TooManyInputs | TooManyOutputs
  | TooManyWitnessItems | ScriptTooLarge | SlabExhausted | SuperfluousWitness | BadHex

section \<open>Constants\<close>

definition HashSize :: nat where "HashSize = 32"
definition MaxHashStringSize :: nat where "MaxHashStringSize = HashSize * 2"
definition MaxTxInSequenceNum :: "32 word" where "MaxTxInSequenceNum = 0xffffffff"
definition MaxMessagePayload :: nat where "MaxMessagePayload = 1024 * 1024 * 32"
definition maxTxInPerMessage :: nat where "maxTxInPerMessage = MaxMessagePayload div (9 + HashSize) + 1"
definition maxTxOutPerMessage :: nat where "maxTxOutPerMessage = MaxMessagePayload div 9 + 1"
definition maxWitnessItemsPerInput :: nat where "maxWitnessItemsPerInput = 4000000"
definition maxWitnessItemSize :: nat where "maxWitnessItemSize = 4000000"
definition scriptSlabSize :: nat where "scriptSlabSize = 2 ^ 22"

section \<open>Building transactions\<close>

definition NewTxIn :: "OutPoint \<Rightarrow> bytes \<Rightarrow> bytes list \<Rightarrow> TxIn" where
  "NewTxIn prevOut signatureScript witness =
     \<lparr>PreviousOutPoint = prevOut, SignatureScript = signatureScript, Witness = witness,
      Sequence = MaxTxInSequenceNum\<rparr>"

definition NewTxOut :: "int \<Rightarrow> bytes \<Rightarrow> TxOut" where
  "NewTxOut value pkScript = \<lparr>Value = value, PkScript = pkScript\<rparr>"

definition NewMsgTx :: "32 word \<Rightarrow> MsgTx" where
  "NewMsgTx version = \<lparr>Version = version, TxIn = [], TxOut = [], LockTime = 0\<rparr>"

definition AddTxIn :: "TxIn \<Rightarrow> MsgTx \<Rightarrow> MsgTx" where
  "AddTxIn ti msg = msg\<lparr>TxIn := TxIn msg @ [ti]\<rparr>"

definition AddTxOut :: "TxOut \<Rightarrow> MsgTx \<Rightarrow> MsgTx" where
  "AddTxOut to msg = msg\<lparr>TxOut := TxOut msg @ [to]\<rparr>"

section \<open>Writers\<close>

definition WriteVarIntBuf :: "nat \<Rightarrow> bytes" where
  "WriteVarIntBuf val =
     (if val < 0xfd then [word_of_nat val]
      else if val \<le> 0xffff then 0xfd # le_bytes 2 val
      else if val \<le> 0xffffffff then 0xfe # le_bytes 4 val
      else 0xff # le_bytes 8 val)"

definition VarIntSerializeSize :: "nat \<Rightarrow> nat" where
  "VarIntSerializeSize val =
     (if val < 0xfd then 1 else if val \<le> 0xffff then 3 else if val \<le> 0xffffffff then 5 else 9)"

definition WriteVarBytesBuf :: "bytes \<Rightarrow> bytes" where
  "WriteVarBytesBuf bs = WriteVarIntBuf (length bs) @ bs"

definition writeOutPointBuf :: "OutPoint \<Rightarrow> bytes" where
  "writeOutPointBuf op = Hash op @ le_bytes 4 (unat (Index op))"

definition writeTxInBuf :: "TxIn \<Rightarrow> bytes" where
  "writeTxInBuf ti = writeOutPointBuf (PreviousOutPoint ti) @ WriteVarBytesBuf (SignatureScript ti)
     @ le_bytes 4 (unat (Sequence ti))"

definition WriteTxOutBuf :: "TxOut \<Rightarrow> bytes" where
  "WriteTxOutBuf to = le_bytes 8 (nat (Value to mod 2 ^ 64)) @ WriteVarBytesBuf (PkScript to)"

definition writeTxWitnessBuf :: "bytes list \<Rightarrow> bytes" where
  "writeTxWitnessBuf wit = WriteVarIntBuf (length wit) @ concat (map WriteVarBytesBuf wit)"

definition HasWitness :: "MsgTx \<Rightarrow> bool" where
  "HasWitness msg = list_ex (\<lambda>ti. Witness ti \<noteq> []) (TxIn msg)"

definition btcEncode :: "MessageEncoding \<Rightarrow> MsgTx \<Rightarrow> bytes" where
  "btcEncode enc msg = (let doWitness = (enc = WitnessEncoding \<and> HasWitness msg) in
     le_bytes 4 (unat (Version msg))
     @ (if doWitness then [0x00, 0x01] else [])
     @ WriteVarIntBuf (length (TxIn msg)) @ concat (map writeTxInBuf (TxIn msg))
     @ WriteVarIntBuf (length (TxOut msg)) @ concat (map WriteTxOutBuf (TxOut msg))
     @ (if doWitness then concat (map (writeTxWitnessBuf \<circ> Witness) (TxIn msg)) else [])
     @ le_bytes 4 (unat (LockTime msg)))"

definition Serialize :: "MsgTx \<Rightarrow> bytes" where
  "Serialize = btcEncode WitnessEncoding"

definition SerializeNoWitness :: "MsgTx \<Rightarrow> bytes" where
  "SerializeNoWitness = btcEncode BaseEncoding"

definition DoubleHashRaw :: "hashes \<Rightarrow> bytes \<Rightarrow> bytes" where
  "DoubleHashRaw H serialized = sha256 H (sha256 H serialized)"

definition TxHash :: "hashes \<Rightarrow> MsgTx \<Rightarrow> bytes" where
  "TxHash H msg = DoubleHashRaw H (SerializeNoWitness msg)"

section \<open>Sizes\<close>

definition TxIn_SerializeSize :: "TxIn \<Rightarrow> nat" where
  "TxIn_SerializeSize t = 40 + VarIntSerializeSize (length (SignatureScript t)) + length (SignatureScript t)"

definition TxOut_SerializeSize :: "TxOut \<Rightarrow> nat" where
  "TxOut_SerializeSize t = 8 + VarIntSerializeSize (length (PkScript t)) + length (PkScript t)"

definition TxWitness_SerializeSize :: "bytes list \<Rightarrow> nat" where
  "TxWitness_SerializeSize t = foldl (\<lambda>n w. n + VarIntSerializeSize (length w) + length w)
     (VarIntSerializeSize (length t)) t"

definition baseSize :: "MsgTx \<Rightarrow> nat" where
  "baseSize msg = (let n = 8 + VarIntSerializeSize (length (TxIn msg)) + VarIntSerializeSize (length (TxOut msg));
     n = foldl (\<lambda>n t. n + TxIn_SerializeSize t) n (TxIn msg) in
     foldl (\<lambda>n t. n + TxOut_SerializeSize t) n (TxOut msg))"

definition SerializeSize :: "MsgTx \<Rightarrow> nat" where
  "SerializeSize msg = (let n = baseSize msg in
     if HasWitness msg then foldl (\<lambda>n t. n + TxWitness_SerializeSize (Witness t)) (n + 2) (TxIn msg) else n)"

definition SerializeSizeStripped :: "MsgTx \<Rightarrow> nat" where
  "SerializeSizeStripped msg = baseSize msg"

section \<open>Readers\<close>

type_synonym 'a reader = "nat \<times> bytes \<Rightarrow> werr + 'a \<times> nat \<times> bytes"

definition readFull :: "nat \<Rightarrow> bytes reader" where
  "readFull n = (\<lambda>(s, r). if length r < n then Inl UnexpectedEOF else Inr (take n r, s, drop n r))"

definition ReadVarIntBuf :: "nat reader" where
  "ReadVarIntBuf st = bindr (readFull 1 st) (\<lambda>(d, st).
     let discriminant = unat (hd d) in
     if discriminant = 0xff then bindr (readFull 8 st) (\<lambda>(b, st).
       let rv = le_val b in if rv < 0x100000000 then Inl NonCanonicalVarInt else Inr (rv, st))
     else if discriminant = 0xfe then bindr (readFull 4 st) (\<lambda>(b, st).
       let rv = le_val b in if rv < 0x10000 then Inl NonCanonicalVarInt else Inr (rv, st))
     else if discriminant = 0xfd then bindr (readFull 2 st) (\<lambda>(b, st).
       let rv = le_val b in if rv < 0xfd then Inl NonCanonicalVarInt else Inr (rv, st))
     else Inr (discriminant, st))"

definition readUint32 :: "32 word reader" where
  "readUint32 st = bindr (readFull 4 st) (\<lambda>(b, st). Inr (word_of_nat (le_val b), st))"

definition readOutPointBuf :: "OutPoint reader" where
  "readOutPointBuf st = bindr (readFull HashSize st) (\<lambda>(h, st). bindr (readUint32 st) (\<lambda>(i, st).
     Inr (\<lparr>Hash = h, Index = i\<rparr>, st)))"

text \<open>Slicing the slab beyond what is left of it panics in Go; the slab shrinks by each script read.\<close>

definition readScriptBuf :: "bytes reader" where
  "readScriptBuf st = bindr (ReadVarIntBuf st) (\<lambda>(count, s, r).
     if count > maxWitnessItemSize then Inl ScriptTooLarge
     else if count > s then Inl SlabExhausted
     else bindr (readFull count (s, r)) (\<lambda>(bs, s, r). Inr (bs, s - length bs, r)))"

definition readTxInBuf :: "TxIn reader" where
  "readTxInBuf st = bindr (readOutPointBuf st) (\<lambda>(op, st). bindr (readScriptBuf st) (\<lambda>(script, st).
     bindr (readUint32 st) (\<lambda>(seq, st).
       Inr (\<lparr>PreviousOutPoint = op, SignatureScript = script, Witness = [], Sequence = seq\<rparr>, st))))"

definition readTxOutBuf :: "TxOut reader" where
  "readTxOutBuf st = bindr (readFull 8 st) (\<lambda>(b, st). bindr (readScriptBuf st) (\<lambda>(script, st).
     Inr (\<lparr>Value = i64 (int (le_val b)), PkScript = script\<rparr>, st)))"

text \<open>A counted loop of reads.\<close>

fun readMany :: "'a reader \<Rightarrow> nat \<Rightarrow> 'a list reader" where
  "readMany rd 0 st = Inr ([], st)"
| "readMany rd (Suc n) st = bindr (rd st) (\<lambda>(x, st). bindr (readMany rd n st) (\<lambda>(xs, st). Inr (x # xs, st)))"

definition readTxWitness :: "bytes list reader" where
  "readTxWitness st = bindr (ReadVarIntBuf st) (\<lambda>(witCount, st).
     if witCount > maxWitnessItemsPerInput then Inl TooManyWitnessItems
     else readMany readScriptBuf witCount st)"

definition btcDecode :: "MessageEncoding \<Rightarrow> MsgTx reader" where
  "btcDecode enc st =
     bindr (readUint32 st) (\<lambda>(version, st).
     bindr (ReadVarIntBuf st) (\<lambda>(count, st).
     bindr (if count = 0 \<and> enc = WitnessEncoding then
              bindr (readFull 1 st) (\<lambda>(flag, st).
              if hd flag \<noteq> 0x01 then Inl BadWitnessFlag
              else bindr (ReadVarIntBuf st) (\<lambda>(count, st). Inr (True, count, st)))
            else Inr (False, count, st)) (\<lambda>(flag, count, st).
     if count > maxTxInPerMessage then Inl TooManyInputs else
     bindr (readMany readTxInBuf count st) (\<lambda>(ins, st).
     bindr (ReadVarIntBuf st) (\<lambda>(count, st).
     if count > maxTxOutPerMessage then Inl TooManyOutputs else
     bindr (readMany readTxOutBuf count st) (\<lambda>(outs, st).
     bindr (if flag then
              bindr (readMany readTxWitness (length ins) st) (\<lambda>(ws, st).
              let ins = map2 (\<lambda>ti w. ti\<lparr>Witness := w\<rparr>) ins ws in
              if list_ex (\<lambda>ti. Witness ti \<noteq> []) ins then Inr (ins, st) else Inl SuperfluousWitness)
            else Inr (ins, st)) (\<lambda>(ins, st).
     bindr (readUint32 st) (\<lambda>(lockTime, st).
     Inr (\<lparr>Version = version, TxIn = ins, TxOut = outs, LockTime = lockTime\<rparr>, st)))))))))"

definition Deserialize :: "bytes \<Rightarrow> werr + MsgTx" where
  "Deserialize r = bindr (btcDecode WitnessEncoding (scriptSlabSize, r)) (\<lambda>(tx, st). Inr tx)"

text \<open>\<open>decodeTx\<close> and \<open>encodeTx\<close> of the bridge: hexadecimal transactions.\<close>

definition encodeTx :: "MsgTx \<Rightarrow> string" where
  "encodeTx tx = hexEncode (Serialize tx)"

definition decodeTx :: "string \<Rightarrow> werr + MsgTx" where
  "decodeTx hexTx = (case hexDecode hexTx of None \<Rightarrow> Inl BadHex | Some raw \<Rightarrow> Deserialize raw)"

section \<open>Text\<close>

definition Hash_String :: "bytes \<Rightarrow> string" where
  "Hash_String hash = hexEncode (rev hash)"

text \<open>Short text is padded with zeros, which end up at the end of the hash.\<close>

definition NewHashFromStr :: "string \<Rightarrow> bytes option" where
  "NewHashFromStr src = (if length src > MaxHashStringSize then None else
     let srcBytes = (if length src mod 2 = 0 then src else CHR ''0'' # src) in
     case hexDecode srcBytes of None \<Rightarrow> None
     | Some b \<Rightarrow> Some (rev (replicate (HashSize - length b) 0 @ b)))"

definition OutPoint_String :: "OutPoint \<Rightarrow> string" where
  "OutPoint_String o' = Hash_String (Hash o') @ CHR '':'' # formatUint (unat (Index o'))"

definition parseOutPoint :: "string \<Rightarrow> OutPoint option" where
  "parseOutPoint s = (case cutLast CHR '':'' s of None \<Rightarrow> None | Some (h, i) \<Rightarrow>
     (case NewHashFromStr h of None \<Rightarrow> None | Some hash \<Rightarrow>
     (case parseUint 32 i of None \<Rightarrow> None | Some vout \<Rightarrow>
       Some \<lparr>Hash = hash, Index = word_of_nat vout\<rparr>)))"

definition NewOutPointFromString :: "string \<Rightarrow> OutPoint option" where
  "NewOutPointFromString outpoint = (case split_at CHR '':'' outpoint of
     [h, i] \<Rightarrow> if length h \<noteq> MaxHashStringSize then None else
       (case NewHashFromStr h of None \<Rightarrow> None | Some hash \<Rightarrow>
       (case parseUint 32 i of None \<Rightarrow> None | Some outputIndex \<Rightarrow>
         Some \<lparr>Hash = hash, Index = word_of_nat outputIndex\<rparr>))
   | _ \<Rightarrow> None)"

section \<open>Well-formed values\<close>

text \<open>What Go's types give (32-byte hashes, 64-bit values) and the limits the reader enforces.\<close>

definition wf_OutPoint :: "OutPoint \<Rightarrow> bool" where
  "wf_OutPoint op \<longleftrightarrow> length (Hash op) = HashSize"

definition wf_TxIn :: "TxIn \<Rightarrow> bool" where
  "wf_TxIn ti \<longleftrightarrow> wf_OutPoint (PreviousOutPoint ti) \<and> length (SignatureScript ti) \<le> maxWitnessItemSize
     \<and> length (Witness ti) \<le> maxWitnessItemsPerInput
     \<and> list_all (\<lambda>w. length w \<le> maxWitnessItemSize) (Witness ti)"

definition wf_TxOut :: "TxOut \<Rightarrow> bool" where
  "wf_TxOut to \<longleftrightarrow> in_i64 (Value to) \<and> length (PkScript to) \<le> maxWitnessItemSize"

definition script_bytes :: "MsgTx \<Rightarrow> nat" where
  "script_bytes tx = sum_list (map (length \<circ> SignatureScript) (TxIn tx))
     + sum_list (map (length \<circ> PkScript) (TxOut tx))
     + sum_list (map (sum_list \<circ> map length \<circ> Witness) (TxIn tx))"

definition wf_MsgTx :: "MsgTx \<Rightarrow> bool" where
  "wf_MsgTx tx \<longleftrightarrow> list_all wf_TxIn (TxIn tx) \<and> list_all wf_TxOut (TxOut tx)
     \<and> length (TxIn tx) \<le> maxTxInPerMessage \<and> length (TxOut tx) \<le> maxTxOutPerMessage
     \<and> script_bytes tx \<le> scriptSlabSize"

section \<open>The codec interface\<close>

text \<open>
  A writer and a reader of one kind of value: the reader returns what was written,
  uses \<open>cost\<close> bytes of the slab and leaves the rest of the input alone.
\<close>

locale codec =
  fixes wr :: "'a \<Rightarrow> bytes" and rd :: "'a reader" and ok :: "'a \<Rightarrow> bool" and cost :: "'a \<Rightarrow> nat"
  assumes rt: "ok x \<Longrightarrow> cost x \<le> s \<Longrightarrow> rd (s, wr x @ r) = Inr (x, s - cost x, r)"
begin

lemma many:
  "list_all ok xs \<Longrightarrow> sum_list (map cost xs) \<le> s \<Longrightarrow>
   readMany rd (length xs) (s, concat (map wr xs) @ r) = Inr (xs, s - sum_list (map cost xs), r)"
proof (induction xs arbitrary: s)
  case (Cons x xs)
  then have "cost x \<le> s" "sum_list (map cost xs) \<le> s - cost x" by simp_all
  then show ?case using Cons by (simp add: rt)
qed simp

lemma prefix_free: "ok x \<Longrightarrow> ok y \<Longrightarrow> wr x @ r = wr y @ r' \<Longrightarrow> x = y \<and> r = r'"
  by (metis Pair_inject max.cobounded1 max.cobounded2 rt sum.inject(2))

end

lemma readFull_append [simp]: "n = length a \<Longrightarrow> readFull n (s, a @ r) = Inr (a, s, r)"
  by (simp add: readFull_def)

lemma readFull_1 [simp]: "readFull (Suc 0) (s, b # r) = Inr ([b], s, r)"
  by (simp add: readFull_def)

lemma unat_word32: "unat (w :: 32 word) < 256 ^ 4"
  by (rule order_less_le_trans [OF unsigned_less]) simp

lemma readUint32_rt [simp]: "readUint32 (s, le_bytes 4 (unat w) @ r) = Inr (w, s, r)"
  using unat_word32 [of w] by (simp add: readUint32_def)

lemma readVarInt_small: "n < 253 \<Longrightarrow> ReadVarIntBuf (s, word_of_nat n # r) = Inr (n, s, r)"
proof -
  assume n: "n < 253"
  then have "unat (word_of_nat n :: byte) = n"
    by (simp add: unat_of_nat)
  with n show ?thesis by (simp add: ReadVarIntBuf_def)
qed

lemma readVarInt_fd: "253 \<le> n \<Longrightarrow> n \<le> 65535 \<Longrightarrow> ReadVarIntBuf (s, 0xfd # le_bytes 2 n @ r) = Inr (n, s, r)"
  by (simp add: ReadVarIntBuf_def)

lemma readVarInt_fe: "65535 < n \<Longrightarrow> n \<le> 4294967295 \<Longrightarrow> ReadVarIntBuf (s, 0xfe # le_bytes 4 n @ r) = Inr (n, s, r)"
  by (simp add: ReadVarIntBuf_def)

lemma readVarInt_ff: "4294967295 < n \<Longrightarrow> n < 18446744073709551616 \<Longrightarrow> ReadVarIntBuf (s, 0xff # le_bytes 8 n @ r) = Inr (n, s, r)"
  by (simp add: ReadVarIntBuf_def)

lemma ReadVarIntBuf_rt [simp]:
  "n < 18446744073709551616 \<Longrightarrow> ReadVarIntBuf (s, WriteVarIntBuf n @ r) = Inr (n, s, r)"
  by (simp add: WriteVarIntBuf_def readVarInt_small readVarInt_fd readVarInt_fe readVarInt_ff)

lemma length_WriteVarIntBuf [simp]: "length (WriteVarIntBuf n) = VarIntSerializeSize n"
  by (simp add: WriteVarIntBuf_def VarIntSerializeSize_def)

lemma readOutPointBuf_rt [simp]: "wf_OutPoint op \<Longrightarrow> readOutPointBuf (s, writeOutPointBuf op @ r) = Inr (op, s, r)"
  by (simp add: readOutPointBuf_def writeOutPointBuf_def wf_OutPoint_def)

lemma limits_64:
  "n \<le> maxWitnessItemSize \<Longrightarrow> n < 18446744073709551616"
  "n \<le> maxWitnessItemsPerInput \<Longrightarrow> n < 18446744073709551616"
  "n \<le> maxTxInPerMessage \<Longrightarrow> n < 18446744073709551616"
  "n \<le> maxTxOutPerMessage \<Longrightarrow> n < 18446744073709551616"
  by (erule le_less_trans, simp add: maxWitnessItemSize_def maxWitnessItemsPerInput_def maxTxInPerMessage_def
      maxTxOutPerMessage_def MaxMessagePayload_def HashSize_def)+

lemma readScriptBuf_rt [simp]:
  "length b \<le> maxWitnessItemSize \<Longrightarrow> length b \<le> s \<Longrightarrow>
   readScriptBuf (s, WriteVarBytesBuf b @ r) = Inr (b, s - length b, r)"
  by (simp add: readScriptBuf_def WriteVarBytesBuf_def limits_64)

interpretation script_codec: codec WriteVarBytesBuf readScriptBuf "\<lambda>b. length b \<le> maxWitnessItemSize" length
  by unfold_locales simp

interpretation txin_codec: codec writeTxInBuf readTxInBuf
    "\<lambda>ti. wf_TxIn ti \<and> Witness ti = []" "\<lambda>ti. length (SignatureScript ti)"
  by unfold_locales (simp add: readTxInBuf_def writeTxInBuf_def wf_TxIn_def)

lemma i64_mod: "in_i64 v \<Longrightarrow> i64 (v mod 2 ^ 64) = v"
  by (simp add: i64_def in_i64_def mod_add_left_eq)

interpretation txout_codec: codec WriteTxOutBuf readTxOutBuf wf_TxOut "\<lambda>to. length (PkScript to)"
proof
  fix x s r
  assume x: "wf_TxOut x" "length (PkScript x) \<le> s"
  have "nat (Value x mod 2 ^ 64) < 256 ^ 8"
    using pos_mod_bound [of "2 ^ 64" "Value x"] by simp
  then have "i64 (int (le_val (le_bytes 8 (nat (Value x mod 2 ^ 64))))) = Value x"
    using x i64_mod [of "Value x"] by (simp add: wf_TxOut_def)
  then show "readTxOutBuf (s, WriteTxOutBuf x @ r) = Inr (x, s - length (PkScript x), r)"
    using x by (simp add: readTxOutBuf_def WriteTxOutBuf_def wf_TxOut_def)
qed

interpretation witness_codec: codec writeTxWitnessBuf readTxWitness
    "\<lambda>w. length w \<le> maxWitnessItemsPerInput \<and> list_all (\<lambda>b. length b \<le> maxWitnessItemSize) w"
    "\<lambda>w. sum_list (map length w)"
  by unfold_locales
    (simp add: readTxWitness_def writeTxWitnessBuf_def script_codec.many limits_64)

section \<open>Transactions\<close>

definition strip :: "TxIn \<Rightarrow> TxIn" where
  "strip ti = ti\<lparr>Witness := []\<rparr>"

lemma strip_simps [simp]:
  "PreviousOutPoint (strip ti) = PreviousOutPoint ti" "SignatureScript (strip ti) = SignatureScript ti"
  "Witness (strip ti) = []" "Sequence (strip ti) = Sequence ti" "writeTxInBuf (strip ti) = writeTxInBuf ti"
  "(strip ti)\<lparr>Witness := w\<rparr> = ti\<lparr>Witness := w\<rparr>" "wf_TxIn ti \<Longrightarrow> wf_TxIn (strip ti)"
  by (simp_all add: strip_def writeTxInBuf_def wf_TxIn_def)

lemma read_ins:
  assumes "list_all wf_TxIn ins" "sum_list (map (length \<circ> SignatureScript) ins) \<le> s"
  shows "readMany readTxInBuf (length ins) (s, concat (map writeTxInBuf ins) @ r)
    = Inr (map strip ins, s - sum_list (map (length \<circ> SignatureScript) ins), r)"
proof -
  have "list_all (\<lambda>ti. wf_TxIn ti \<and> Witness ti = []) (map strip ins)"
    using assms(1) by (simp add: list_all_iff)
  from txin_codec.many [OF this, of s r] show ?thesis
    using assms(2) by (simp add: comp_def)
qed

lemma read_witnesses:
  assumes "list_all wf_TxIn ins" "sum_list (map (sum_list \<circ> map length \<circ> Witness) ins) \<le> s"
  shows "readMany readTxWitness (length ins) (s, concat (map (writeTxWitnessBuf \<circ> Witness) ins) @ r)
    = Inr (map Witness ins, s - sum_list (map (sum_list \<circ> map length \<circ> Witness) ins), r)"
proof -
  have "list_all (\<lambda>w. length w \<le> maxWitnessItemsPerInput
      \<and> list_all (\<lambda>b. length b \<le> maxWitnessItemSize) w) (map Witness ins)"
    using assms(1) by (simp add: list_all_iff wf_TxIn_def)
  from witness_codec.many [OF this, of s r] show ?thesis
    using assms(2) by (simp add: comp_def)
qed

lemma restore_witness: "map2 (\<lambda>ti w. ti\<lparr>Witness := w\<rparr>) (map strip ins) (map Witness ins) = ins"
  by (induction ins) simp_all

lemma strip_id: "list_all (\<lambda>ti. Witness ti = []) ins \<Longrightarrow> map strip ins = ins"
  by (induction ins) (simp_all add: strip_def)

lemma not_HasWitness: "\<not> HasWitness tx \<longleftrightarrow> list_all (\<lambda>ti. Witness ti = []) (TxIn tx)"
  by (simp add: HasWitness_def list_ex_iff list_all_iff)

lemma readVarInt_0 [simp]: "ReadVarIntBuf (s, 0 # r) = Inr (0, s, r)"
  using readVarInt_small [of 0 s r] by simp

lemma btcDecode_plain:
  assumes wf: "wf_MsgTx tx" and nw: "\<not> HasWitness tx" and ins: "enc = BaseEncoding \<or> TxIn tx \<noteq> []"
  shows "\<exists>s. btcDecode enc (scriptSlabSize, btcEncode enc tx @ r) = Inr (tx, s, r)"
proof -
  let ?i = "sum_list (map (length \<circ> SignatureScript) (TxIn tx))"
  let ?o = "sum_list (map (length \<circ> PkScript) (TxOut tx))"
  have w: "list_all wf_TxIn (TxIn tx)" "list_all wf_TxOut (TxOut tx)" "?i \<le> scriptSlabSize" "?o \<le> scriptSlabSize - ?i"
    "length (TxIn tx) \<le> maxTxInPerMessage" "length (TxOut tx) \<le> maxTxOutPerMessage"
    using wf by (auto simp: wf_MsgTx_def script_bytes_def)
  have st: "map strip (TxIn tx) = TxIn tx"
    using nw strip_id by (simp add: not_HasWitness)
  have w4: "sum_list (map (\<lambda>to. length (PkScript to)) (TxOut tx)) \<le> scriptSlabSize - ?i"
    using w(4) by (simp add: comp_def)
  note outs = txout_codec.many [OF w(2) w4]
  have g: "(TxIn tx = [] \<and> enc = WitnessEncoding) = False"
    using ins by auto
  show ?thesis
    using w nw read_ins [OF w(1,3)] outs
    by (simp add: btcDecode_def btcEncode_def Let_def st limits_64 g)
qed

lemma btcDecode_witness:
  assumes wf: "wf_MsgTx tx" and hw: "HasWitness tx"
  shows "\<exists>s. btcDecode WitnessEncoding (scriptSlabSize, btcEncode WitnessEncoding tx @ r) = Inr (tx, s, r)"
proof -
  let ?i = "sum_list (map (length \<circ> SignatureScript) (TxIn tx))"
  let ?o = "sum_list (map (length \<circ> PkScript) (TxOut tx))"
  let ?w = "sum_list (map (sum_list \<circ> map length \<circ> Witness) (TxIn tx))"
  have w: "list_all wf_TxIn (TxIn tx)" "list_all wf_TxOut (TxOut tx)" "?i \<le> scriptSlabSize"
    "?w \<le> scriptSlabSize - ?i - ?o"
    "length (TxIn tx) \<le> maxTxInPerMessage" "length (TxOut tx) \<le> maxTxOutPerMessage"
    using wf by (auto simp: wf_MsgTx_def script_bytes_def)
  have w4: "sum_list (map (\<lambda>to. length (PkScript to)) (TxOut tx)) \<le> scriptSlabSize - ?i"
    using wf by (auto simp: wf_MsgTx_def script_bytes_def comp_def)
  note outs = txout_codec.many [OF w(2) w4]
  have len: "length (map strip (TxIn tx)) = length (TxIn tx)" by simp
  have hw': "list_ex (\<lambda>ti. Witness ti \<noteq> []) (TxIn tx)" using hw by (simp add: HasWitness_def)
  have ww: "?w \<le> scriptSlabSize - ?i - sum_list (map (\<lambda>to. length (PkScript to)) (TxOut tx))"
    using w(4) by (simp add: comp_def)
  show ?thesis
    using w hw hw' read_ins [OF w(1,3)] outs read_witnesses [OF w(1) ww]
    by (simp add: btcDecode_def btcEncode_def Let_def limits_64 restore_witness del: map2_map_map zip_map_map)
qed

lemma Deserialize_Serialize_append:
  assumes "wf_MsgTx tx" "TxIn tx \<noteq> []"
  shows "Deserialize (Serialize tx @ r) = Inr tx"
proof (cases "HasWitness tx")
  case True
  with assms btcDecode_witness [of tx r] show ?thesis by (auto simp: Deserialize_def Serialize_def)
next
  case False
  with assms btcDecode_plain [of tx WitnessEncoding r] show ?thesis by (auto simp: Deserialize_def Serialize_def)
qed

lemma Deserialize_Serialize [wire_rt]: "wf_MsgTx tx \<Longrightarrow> TxIn tx \<noteq> [] \<Longrightarrow> Deserialize (Serialize tx) = Inr tx"
  using Deserialize_Serialize_append [of tx "[]"] by simp

lemma Serialize_inj:
  "wf_MsgTx a \<Longrightarrow> wf_MsgTx b \<Longrightarrow> TxIn a \<noteq> [] \<Longrightarrow> TxIn b \<noteq> [] \<Longrightarrow> Serialize a = Serialize b \<longleftrightarrow> a = b"
  by (metis Deserialize_Serialize sum.inject(2))

lemma SerializeNoWitness_inj:
  assumes "wf_MsgTx a" "wf_MsgTx b" "\<not> HasWitness a" "\<not> HasWitness b"
  shows "SerializeNoWitness a = SerializeNoWitness b \<longleftrightarrow> a = b"
  unfolding SerializeNoWitness_def
  by (metis append_Nil2 assms btcDecode_plain prod.inject sum.inject(2))

lemma encodeTx_inj:
  "wf_MsgTx a \<Longrightarrow> wf_MsgTx b \<Longrightarrow> TxIn a \<noteq> [] \<Longrightarrow> TxIn b \<noteq> [] \<Longrightarrow> encodeTx a = encodeTx b \<longleftrightarrow> a = b"
  by (simp add: encodeTx_def Serialize_inj)

section \<open>Sizes\<close>

lemma foldl_add: "foldl (\<lambda>n x. n + f x) n xs = n + sum_list (map f xs)" for f :: "'a \<Rightarrow> nat"
  by (induction xs arbitrary: n) simp_all

lemma length_concat_map: "length (concat (map f xs)) = sum_list (map (length \<circ> f) xs)"
  by (induction xs) simp_all

lemma size_TxIn: "wf_TxIn ti \<Longrightarrow> length (writeTxInBuf ti) = TxIn_SerializeSize ti"
  by (simp add: writeTxInBuf_def writeOutPointBuf_def WriteVarBytesBuf_def TxIn_SerializeSize_def
      wf_TxIn_def wf_OutPoint_def HashSize_def)

lemma size_TxOut: "length (WriteTxOutBuf to) = TxOut_SerializeSize to"
  by (simp add: WriteTxOutBuf_def WriteVarBytesBuf_def TxOut_SerializeSize_def)

lemma size_witness: "length (writeTxWitnessBuf w) = TxWitness_SerializeSize w"
  by (simp add: writeTxWitnessBuf_def TxWitness_SerializeSize_def WriteVarBytesBuf_def comp_def
      length_concat_map add.assoc foldl_add)

lemma size_ins: "list_all wf_TxIn ins \<Longrightarrow>
    (\<Sum>x\<leftarrow>ins. length (writeTxInBuf x)) = sum_list (map TxIn_SerializeSize ins)"
  by (induction ins) (simp_all add: size_TxIn)

lemmas size_simps = baseSize_def SerializeSize_def Let_def foldl_add length_concat_map size_ins size_TxOut
  size_witness comp_def

section \<open>Text\<close>

lemma NewHashFromStr_Hash_String [simp, wire_rt]: "length h = HashSize \<Longrightarrow> NewHashFromStr (Hash_String h) = Some h"
  by (simp add: NewHashFromStr_def Hash_String_def MaxHashStringSize_def HashSize_def)

lemma Hash_String_inj [simp]: "Hash_String a = Hash_String b \<longleftrightarrow> a = b"
  by (simp add: Hash_String_def)

lemma length_Hash_String: "length h = HashSize \<Longrightarrow> length (Hash_String h) = 64"
  by (simp add: Hash_String_def HashSize_def)

lemma colon_notin [simp]: "CHR '':'' \<notin> set (formatUint n)" "CHR '':'' \<notin> set (Hash_String h)"
  using set_hexEncode [of "CHR '':''" "rev h"] by (auto simp: sep_notin_formatUint Hash_String_def)

lemma unat_word32_bound: "unat (w :: 32 word) < 2 ^ 32"
  by (rule order_less_le_trans [OF unsigned_less]) simp

lemma parseOutPoint_String [simp, wire_rt]: "wf_OutPoint op \<Longrightarrow> parseOutPoint (OutPoint_String op) = Some op"
  using unat_word32_bound [of "Index op"]
  by (simp add: parseOutPoint_def OutPoint_String_def wf_OutPoint_def)

lemma wf_parseOutPoint: "parseOutPoint s = Some op \<Longrightarrow> wf_OutPoint op"
proof -
  have len: "hexDecode cs = Some b \<Longrightarrow> 2 * length b = length cs" for cs b
    by (induction cs arbitrary: b rule: hexDecode.induct) (auto split: option.splits)
  have "NewHashFromStr h = Some x \<Longrightarrow> length x = HashSize" for h x
    by (auto simp: NewHashFromStr_def Let_def MaxHashStringSize_def split: if_splits option.splits dest!: len)
  then show "parseOutPoint s = Some op \<Longrightarrow> wf_OutPoint op"
    by (auto simp: parseOutPoint_def wf_OutPoint_def split: option.splits)
qed

lemma OutPoint_String_inj: "wf_OutPoint a \<Longrightarrow> wf_OutPoint b \<Longrightarrow> OutPoint_String a = OutPoint_String b \<longleftrightarrow> a = b"
  by (metis option.inject parseOutPoint_String)

section \<open>Sample values\<close>

text \<open>Concrete values for the witnesses: hashes that keep the front of their input, a coin and a payment of it.\<close>

definition sampleHashes :: hashes where
  "sampleHashes = \<lparr>sha256 = (\<lambda>b. take 32 (b @ replicate 32 0)), hash160 = (\<lambda>b. take 20 (b @ replicate 20 0))\<rparr>"

definition sampleOutPoint :: OutPoint where
  "sampleOutPoint = \<lparr>Hash = replicate 32 7, Index = 3\<rparr>"

definition sampleTx :: MsgTx where
  "sampleTx = \<lparr>Version = 1, TxIn = [\<lparr>PreviousOutPoint = sampleOutPoint, SignatureScript = [0x51], Witness = [[1, 2]],
     Sequence = 0xfffffffd\<rparr>], TxOut = [\<lparr>Value = 900000000, PkScript = [0x6a, 1, 9]\<rparr>], LockTime = 5\<rparr>"

lemma wf_sampleTx: "wf_MsgTx sampleTx" "TxIn sampleTx \<noteq> []"
  by (simp_all add: wf_MsgTx_def sampleTx_def sampleOutPoint_def wf_TxIn_def wf_TxOut_def wf_OutPoint_def HashSize_def
      maxWitnessItemSize_def maxWitnessItemsPerInput_def in_i64_def maxTxInPerMessage_def maxTxOutPerMessage_def
      MaxMessagePayload_def script_bytes_def scriptSlabSize_def)

section \<open>Properties\<close>

text \<open>C17: the hexadecimal form of a well-formed transaction with an input, with or without
  witness data, decodes to the same transaction.\<close>

theorem decodeTx_encodeTx:
  assumes "wf_MsgTx tx" "TxIn tx \<noteq> []"
  shows "decodeTx (encodeTx tx) = Inr tx"
  using Deserialize_Serialize [OF assms] by (simp add: decodeTx_def encodeTx_def)

theorem decodeTx_encodeTx_witness: "decodeTx (encodeTx sampleTx) = Inr sampleTx \<and> HasWitness sampleTx"
  using decodeTx_encodeTx [OF wf_sampleTx] by (simp add: HasWitness_def sampleTx_def)

text \<open>The sizes computed without serializing are the sizes of the two serializations.\<close>

theorem serialized_sizes:
  assumes "wf_MsgTx tx"
  shows "SerializeSize tx = length (Serialize tx) \<and> SerializeSizeStripped tx = length (SerializeNoWitness tx)"
  using assms
  by (simp add: Serialize_def SerializeNoWitness_def SerializeSizeStripped_def btcEncode_def size_simps wf_MsgTx_def)

theorem serialized_sizes_witness: "SerializeSize sampleTx = 70 \<and> length (Serialize sampleTx) = 70"
proof -
  have "SerializeSize sampleTx = 70" by code_simp
  then show ?thesis using serialized_sizes [OF wf_sampleTx(1)] by simp
qed

text \<open>An outpoint printed as text is read back by both parsers.\<close>

theorem outpoint_text:
  assumes "wf_OutPoint op"
  shows "parseOutPoint (OutPoint_String op) = Some op \<and> NewOutPointFromString (OutPoint_String op) = Some op"
proof -
  have "split_at CHR '':'' (OutPoint_String op) = [Hash_String (Hash op), formatUint (unat (Index op))]"
    by (simp add: OutPoint_String_def)
  then show ?thesis
    using assms unat_word32_bound [of "Index op"]
    by (simp add: NewOutPointFromString_def wf_OutPoint_def length_Hash_String MaxHashStringSize_def HashSize_def)
qed

theorem outpoint_text_witness: "parseOutPoint (OutPoint_String sampleOutPoint) = Some sampleOutPoint"
  using outpoint_text [of sampleOutPoint] by (simp add: wf_OutPoint_def sampleOutPoint_def HashSize_def)

end
