(* ===== verification/Script.thy ===== *)
theory Script
  imports Wire
begin

text \<open>
  The parts of \<open>btcd/txscript\<close> the bridge builds and reads scripts with: the script
  builder, the tokenizer, the classes of standard scripts and the data a script
  pushes.  The tokenizer's state is what is left of its script.
\<close>

section \<open>Opcodes\<close>

definition OP_0 :: byte where "OP_0 = 0x00"
definition OP_PUSHDATA1 :: byte where "OP_PUSHDATA1 = 0x4c"
definition OP_PUSHDATA2 :: byte where "OP_PUSHDATA2 = 0x4d"
definition OP_PUSHDATA4 :: byte where "OP_PUSHDATA4 = 0x4e"
definition OP_1NEGATE :: byte where "OP_1NEGATE = 0x4f"
definition OP_1 :: byte where "OP_1 = 0x51"
definition OP_16 :: byte where "OP_16 = 0x60"
definition OP_RETURN :: byte where "OP_RETURN = 0x6a"
definition OP_DROP :: byte where "OP_DROP = 0x75"
definition OP_DUP :: byte where "OP_DUP = 0x76"
definition OP_EQUAL :: byte where "OP_EQUAL = 0x87"
definition OP_EQUALVERIFY :: byte where "OP_EQUALVERIFY = 0x88"
definition OP_HASH160 :: byte where "OP_HASH160 = 0xa9"
definition OP_CHECKSIG :: byte where "OP_CHECKSIG = 0xac"
definition OP_CHECKMULTISIG :: byte where "OP_CHECKMULTISIG = 0xae"

lemmas opcodes = OP_0_def OP_PUSHDATA1_def OP_PUSHDATA2_def OP_PUSHDATA4_def OP_1NEGATE_def OP_1_def OP_16_def
  OP_RETURN_def OP_DROP_def OP_DUP_def OP_EQUAL_def OP_EQUALVERIFY_def OP_HASH160_def OP_CHECKSIG_def
  OP_CHECKMULTISIG_def

definition MaxScriptSize :: nat where "MaxScriptSize = 10000"
definition MaxScriptElementSize :: nat where "MaxScriptElementSize = 520"
definition MaxDataCarrierSize :: nat where "MaxDataCarrierSize = 80"

datatype serr = ErrScriptNotCanonical | ErrMalformedPush | ErrTooMuchNullData | ErrTooManyRequiredSigs
  | ScriptNumPanic

definition IsSmallInt :: "byte \<Rightarrow> bool" where
  "IsSmallInt op \<longleftrightarrow> op = OP_0 \<or> (op \<ge> OP_1 \<and> op \<le> OP_16)"

definition AsSmallInt :: "byte \<Rightarrow> nat" where
  "AsSmallInt op = (if op = OP_0 then 0 else unat (op - (OP_1 - 1)))"

section \<open>The script builder\<close>

record ScriptBuilder =
  script :: bytes
  err :: "serr option"

definition NewScriptBuilder :: ScriptBuilder where
  "NewScriptBuilder = \<lparr>script = [], err = None\<rparr>"

definition AddOp :: "byte \<Rightarrow> ScriptBuilder \<Rightarrow> ScriptBuilder" where
  "AddOp opcode b = (if err b \<noteq> None then b
     else if length (script b) + 1 > MaxScriptSize then b\<lparr>err := Some ErrScriptNotCanonical\<rparr>
     else b\<lparr>script := script b @ [opcode]\<rparr>)"

definition canonicalDataSize :: "bytes \<Rightarrow> nat" where
  "canonicalDataSize data = (let dataLen = length data in
     if dataLen = 0 then 1
     else if dataLen = 1 \<and> hd data \<le> 16 then 1
     else if dataLen = 1 \<and> hd data = 0x81 then 1
     else if dataLen < 76 then 1 + dataLen
     else if dataLen \<le> 0xff then 2 + dataLen
     else if dataLen \<le> 0xffff then 3 + dataLen
     else 5 + dataLen)"

text \<open>The bytes \<open>addData\<close> appends.\<close>

definition pushBytes :: "bytes \<Rightarrow> bytes" where
  "pushBytes data = (let dataLen = length data in
     if dataLen = 0 \<or> (dataLen = 1 \<and> hd data = 0) then [OP_0]
     else if dataLen = 1 \<and> hd data \<le> 16 then [(OP_1 - 1) + hd data]
     else if dataLen = 1 \<and> hd data = 0x81 then [OP_1NEGATE]
     else if dataLen < 76 then word_of_nat dataLen # data
     else if dataLen \<le> 0xff then OP_PUSHDATA1 # word_of_nat dataLen # data
     else if dataLen \<le> 0xffff then OP_PUSHDATA2 # le_bytes 2 dataLen @ data
     else OP_PUSHDATA4 # le_bytes 4 dataLen @ data)"

definition addData :: "bytes \<Rightarrow> ScriptBuilder \<Rightarrow> ScriptBuilder" where
  "addData data b = b\<lparr>script := script b @ pushBytes data\<rparr>"

definition AddData :: "bytes \<Rightarrow> ScriptBuilder \<Rightarrow> ScriptBuilder" where
  "AddData data b = (if err b \<noteq> None then b
     else if length (script b) + canonicalDataSize data > MaxScriptSize then b\<lparr>err := Some ErrScriptNotCanonical\<rparr>
     else if length data > MaxScriptElementSize then b\<lparr>err := Some ErrScriptNotCanonical\<rparr>
     else addData data b)"

text \<open>
  \<open>scriptNum.Bytes\<close>: little endian with the sign in the top bit.  The least int64 has
  no negation, the loop then appends nothing and indexing the last byte panics.
\<close>

function magnitude :: "nat \<Rightarrow> bytes" where
  "magnitude n = (if n = 0 then [] else word_of_nat (n mod 256) # magnitude (n div 256))"
  by auto
termination by (relation "measure id") auto

declare magnitude.simps [simp del]

definition scriptNum_Bytes :: "int \<Rightarrow> bytes option" where
  "scriptNum_Bytes n = (if n = 0 then Some [] else if n = - (2 ^ 63) then None else
     let result = magnitude (nat \<bar>n\<bar>); top = last result in
     if unat top \<ge> 128 then Some (result @ [if n < 0 then 0x80 else 0x00])
     else if n < 0 then Some (butlast result @ [top + 0x80])
     else Some result)"

definition AddInt64 :: "int \<Rightarrow> ScriptBuilder \<Rightarrow> ScriptBuilder" where
  "AddInt64 val b = (if err b \<noteq> None then b
     else if length (script b) + 1 > MaxScriptSize then b\<lparr>err := Some ErrScriptNotCanonical\<rparr>
     else if val = 0 then b\<lparr>script := script b @ [OP_0]\<rparr>
     else if val = -1 \<or> (1 \<le> val \<and> val \<le> 16) then b\<lparr>script := script b @ [(OP_1 - 1) + word_of_int val]\<rparr>
     else case scriptNum_Bytes val of
       None \<Rightarrow> b\<lparr>err := Some ScriptNumPanic\<rparr>
     | Some bs \<Rightarrow> AddData bs b)"

definition Script_of :: "ScriptBuilder \<Rightarrow> serr + bytes" where
  "Script_of b = (case err b of None \<Rightarrow> Inr (script b) | Some e \<Rightarrow> Inl e)"

definition payToPubKeyHashScript :: "bytes \<Rightarrow> serr + bytes" where
  "payToPubKeyHashScript pubKeyHash = Script_of (AddOp OP_CHECKSIG (AddOp OP_EQUALVERIFY
     (AddData pubKeyHash (AddOp OP_HASH160 (AddOp OP_DUP NewScriptBuilder)))))"

definition payToScriptHashScript :: "bytes \<Rightarrow> serr + bytes" where
  "payToScriptHashScript scriptHash = Script_of (AddOp OP_EQUAL (AddData scriptHash
     (AddOp OP_HASH160 NewScriptBuilder)))"

definition NullDataScript :: "bytes \<Rightarrow> serr + bytes" where
  "NullDataScript data = (if length data > MaxDataCarrierSize then Inl ErrTooMuchNullData
     else Script_of (AddData data (AddOp OP_RETURN NewScriptBuilder)))"

definition MultiSigScript :: "bytes list \<Rightarrow> nat \<Rightarrow> serr + bytes" where
  "MultiSigScript pubkeys nrequired = (if length pubkeys < nrequired then Inl ErrTooManyRequiredSigs
     else Script_of (AddOp OP_CHECKMULTISIG (AddInt64 (int (length pubkeys))
       (foldl (\<lambda>b key. AddData key b) (AddInt64 (int nrequired) NewScriptBuilder) pubkeys))))"

section \<open>The tokenizer\<close>

definition opcodeLength :: "byte \<Rightarrow> int" where
  "opcodeLength op = (let n = unat op in
     if 1 \<le> n \<and> n \<le> 75 then int n + 1
     else if op = OP_PUSHDATA1 then -1
     else if op = OP_PUSHDATA2 then -2
     else if op = OP_PUSHDATA4 then -4
     else 1)"

text \<open>
  \<open>Next\<close> on what is left of the script: \<open>None\<close> at its end, else an error or the opcode,
  its data (absent for an opcode that pushes none) and what is then left.
\<close>

definition Next :: "bytes \<Rightarrow> (serr + byte \<times> bytes option \<times> bytes) option" where
  "Next r = (case r of [] \<Rightarrow> None | op # rest \<Rightarrow>
     let len = opcodeLength op in
     if len = 1 then Some (Inr (op, None, rest))
     else if len > 1 then
       (if length r < nat len then Some (Inl ErrMalformedPush)
        else Some (Inr (op, Some (take (nat len - 1) rest), drop (nat len - 1) rest)))
     else
       let n = nat (- len) in
       if length rest < n then Some (Inl ErrMalformedPush)
       else let dataLen = le_val (take n rest); body = drop n rest in
         if dataLen > length body \<or> dataLen \<ge> 2 ^ 31 then Some (Inl ErrMalformedPush)
         else Some (Inr (op, Some (take dataLen body), drop dataLen body)))"

lemma Next_shorter: "Next r = Some (Inr (op, d, rest)) \<Longrightarrow> length rest < length r"
  by (auto simp: Next_def Let_def split: list.splits if_splits)

function PushedData :: "bytes \<Rightarrow> serr + bytes list" where
  "PushedData r = (case Next r of
     None \<Rightarrow> Inr []
   | Some (Inl e) \<Rightarrow> Inl e
   | Some (Inr (op, d, rest)) \<Rightarrow> bindr (PushedData rest) (\<lambda>ds. Inr (case d of
       Some x \<Rightarrow> x # ds
     | None \<Rightarrow> if op = OP_0 then [] # ds else ds)))"
  by pat_completeness auto
termination by (relation "measure length") (auto dest: Next_shorter)

declare PushedData.simps [simp del]

section \<open>Classes of scripts\<close>

datatype ScriptClass = NonStandardTy | PubKeyTy | PubKeyHashTy | WitnessV0PubKeyHashTy | ScriptHashTy
  | WitnessV0ScriptHashTy | MultiSigTy | NullDataTy | WitnessV1TaprootTy

definition isPubKeyScript :: "bytes \<Rightarrow> bool" where
  "isPubKeyScript s \<longleftrightarrow>
     (length s = 35 \<and> s ! 34 = OP_CHECKSIG \<and> s ! 0 = 33 \<and> (s ! 1 = 2 \<or> s ! 1 = 3)) \<or>
     (length s = 67 \<and> s ! 66 = OP_CHECKSIG \<and> s ! 0 = 65 \<and> (s ! 1 = 4 \<or> s ! 1 = 6 \<or> s ! 1 = 7))"

definition extractPubKeyHash :: "bytes \<Rightarrow> bytes option" where
  "extractPubKeyHash s = (if length s = 25 \<and> s ! 0 = OP_DUP \<and> s ! 1 = OP_HASH160 \<and> s ! 2 = 20
     \<and> s ! 23 = OP_EQUALVERIFY \<and> s ! 24 = OP_CHECKSIG then Some (take 20 (drop 3 s)) else None)"

definition extractScriptHash :: "bytes \<Rightarrow> bytes option" where
  "extractScriptHash s = (if length s = 23 \<and> s ! 0 = OP_HASH160 \<and> s ! 1 = 20 \<and> s ! 22 = OP_EQUAL
     then Some (take 20 (drop 2 s)) else None)"

definition isWitnessPubKeyHashScript :: "bytes \<Rightarrow> bool" where
  "isWitnessPubKeyHashScript s \<longleftrightarrow> length s = 22 \<and> s ! 0 = OP_0 \<and> s ! 1 = 20"

definition isWitnessScriptHashScript :: "bytes \<Rightarrow> bool" where
  "isWitnessScriptHashScript s \<longleftrightarrow> length s = 34 \<and> s ! 0 = OP_0 \<and> s ! 1 = 32"

definition isWitnessTaprootScript :: "bytes \<Rightarrow> bool" where
  "isWitnessTaprootScript s \<longleftrightarrow> length s = 34 \<and> s ! 0 = OP_1 \<and> s ! 1 = 32"

text \<open>The loop over the public keys of a multisig script, up to the small integer that ends it.\<close>

function multisigKeys :: "bytes \<Rightarrow> nat \<Rightarrow> (byte \<times> nat \<times> bytes) option" where
  "multisigKeys r n = (case Next r of
     None \<Rightarrow> None
   | Some (Inl e) \<Rightarrow> None
   | Some (Inr (op, d, rest)) \<Rightarrow>
       if IsSmallInt op then (if rest = [] then None else Some (op, n, rest))
       else multisigKeys rest (n + 1))"
  by pat_completeness auto
termination by (relation "measure (length \<circ> fst)") (auto dest: Next_shorter)

declare multisigKeys.simps [simp del]

definition extractMultisigScriptDetails :: "bytes \<Rightarrow> (nat \<times> nat) option" where
  "extractMultisigScriptDetails s = (if length s < 3 \<or> last s \<noteq> OP_CHECKMULTISIG then None else
     case Next s of
       Some (Inr (op, d, rest)) \<Rightarrow> if \<not> IsSmallInt op then None else
         (case multisigKeys rest 0 of
            None \<Rightarrow> None
          | Some (op', numPubKeys, rest) \<Rightarrow>
              if \<not> IsSmallInt op' \<or> AsSmallInt op' \<noteq> numPubKeys then None
              else if length rest \<noteq> 1 then None
              else Some (AsSmallInt op, numPubKeys))
     | _ \<Rightarrow> None)"

definition isMultisigScript :: "bytes \<Rightarrow> bool" where
  "isMultisigScript s \<longleftrightarrow> extractMultisigScriptDetails s \<noteq> None"

definition isNullDataScript :: "bytes \<Rightarrow> bool" where
  "isNullDataScript s = (case s of [] \<Rightarrow> False | b # rest \<Rightarrow>
     if b \<noteq> OP_RETURN then False else if rest = [] then True else
     (case Next rest of
        Some (Inr (op, d, left)) \<Rightarrow> left = [] \<and> (IsSmallInt op \<or> op \<le> OP_PUSHDATA4)
          \<and> (case d of None \<Rightarrow> True | Some x \<Rightarrow> length x \<le> MaxDataCarrierSize)
      | _ \<Rightarrow> False))"

definition GetScriptClass :: "bytes \<Rightarrow> ScriptClass" where
  "GetScriptClass s =
     (if isPubKeyScript s then PubKeyTy
      else if extractPubKeyHash s \<noteq> None then PubKeyHashTy
      else if extractScriptHash s \<noteq> None then ScriptHashTy
      else if isWitnessPubKeyHashScript s then WitnessV0PubKeyHashTy
      else if isWitnessScriptHashScript s then WitnessV0ScriptHashTy
      else if isMultisigScript s then MultiSigTy
      else if isNullDataScript s then NullDataTy
      else if isWitnessTaprootScript s then WitnessV1TaprootTy
      else NonStandardTy)"

section \<open>Tokens of pushed data\<close>

lemma Next_Nil [simp]: "Next [] = None"
  by (simp add: Next_def)

lemma PushedData_Nil [simp]: "PushedData [] = Inr []"
  by (simp add: PushedData.simps)

lemma unat_of_nat_byte: "n < 256 \<Longrightarrow> unat (word_of_nat n :: byte) = n"
  by (simp add: unat_of_nat)

lemma word_of_nat_byte_neq: "n < 256 \<Longrightarrow> n \<noteq> unat b \<Longrightarrow> (word_of_nat n :: byte) \<noteq> b"
  by (metis unat_of_nat_byte)

text \<open>Data of two or more bytes pushed by the builder comes back from the tokenizer.\<close>

lemma Next_pushBytes_direct:
  assumes "2 \<le> length data" "length data < 76"
  shows "pushBytes data = word_of_nat (length data) # data"
    and "Next (word_of_nat (length data) # data @ r) = Some (Inr (word_of_nat (length data), Some data, r))"
proof -
  have u: "unat (word_of_nat (length data) :: byte) = length data"
    using assms by (simp add: unat_of_nat_byte)
  show "pushBytes data = word_of_nat (length data) # data"
    using assms by (auto simp: pushBytes_def Let_def)
  show "Next (word_of_nat (length data) # data @ r) = Some (Inr (word_of_nat (length data), Some data, r))"
    using assms by (auto simp: Next_def opcodeLength_def u Let_def nat_add_distrib)
qed

lemma Next_pushBytes:
  assumes "2 \<le> length data" "length data \<le> MaxScriptElementSize"
  obtains op where "Next (pushBytes data @ r) = Some (Inr (op, Some data, r))" "op \<le> OP_PUSHDATA4"
proof -
  have l: "length data \<le> 520" using assms(2) by (simp add: MaxScriptElementSize_def)
  consider (direct) "length data < 76" | (one) "76 \<le> length data" "length data \<le> 255" | (two) "256 \<le> length data"
    by linarith
  then show thesis
  proof cases
    case direct
    have "(word_of_nat (length data) :: byte) \<le> OP_PUSHDATA4"
      using direct by (simp add: word_le_nat_alt unat_of_nat_byte opcodes)
    then show thesis
      using that [of "word_of_nat (length data)"] Next_pushBytes_direct [OF assms(1) direct] by simp
  next
    case one
    have u: "unat (word_of_nat (length data) :: byte) = length data"
      using one by (simp add: unat_of_nat_byte)
    have "pushBytes data = OP_PUSHDATA1 # word_of_nat (length data) # data"
      using one by (auto simp: pushBytes_def Let_def)
    then show thesis
      using that [of OP_PUSHDATA1] one u by (simp add: Next_def opcodeLength_def opcodes Let_def)
  next
    case two
    have "pushBytes data = OP_PUSHDATA2 # le_bytes 2 (length data) @ data"
      using two l by (auto simp: pushBytes_def Let_def)
    then show thesis
      using that [of OP_PUSHDATA2] two l by (simp add: Next_def opcodeLength_def opcodes Let_def)
  qed
qed

lemma PushedData_push:
  assumes "2 \<le> length data" "length data \<le> MaxScriptElementSize"
  shows "PushedData (pushBytes data @ r) = bindr (PushedData r) (\<lambda>ds. Inr (data # ds))"
proof -
  obtain op where "Next (pushBytes data @ r) = Some (Inr (op, Some data, r))"
    using Next_pushBytes [OF assms] .
  then show ?thesis by (subst PushedData.simps) simp
qed

lemma PushedData_RETURN: "PushedData (OP_RETURN # r) = PushedData r"
proof -
  have "Next (OP_RETURN # r) = Some (Inr (OP_RETURN, None, r))"
    by (simp add: Next_def opcodeLength_def opcodes)
  then have "PushedData (OP_RETURN # r) = bindr (PushedData r) (\<lambda>ds. Inr (if OP_RETURN = OP_0 then [] # ds else ds))"
    by (subst PushedData.simps) simp
  then show ?thesis by (cases "PushedData r") (simp_all add: opcodes)
qed

section \<open>Null data and pay-to-hash scripts\<close>

lemma canonicalDataSize_le: "length data \<le> MaxScriptElementSize \<Longrightarrow> canonicalDataSize data \<le> 525"
  by (auto simp: canonicalDataSize_def Let_def MaxScriptElementSize_def)

lemma builder_simps:
  "err (AddOp opc b) = (if err b \<noteq> None then err b else if length (script b) + 1 > MaxScriptSize then Some ErrScriptNotCanonical else None)"
  "err b = None \<Longrightarrow> length (script b) < MaxScriptSize \<Longrightarrow> script (AddOp opc b) = script b @ [opc]"
  by (simp_all add: AddOp_def)

lemma NullDataScript_ok:
  "length data \<le> MaxDataCarrierSize \<Longrightarrow> NullDataScript data = Inr (OP_RETURN # pushBytes data)"
  using canonicalDataSize_le [of data]
  by (simp add: NullDataScript_def Script_of_def AddData_def AddOp_def NewScriptBuilder_def addData_def
      MaxScriptSize_def MaxScriptElementSize_def MaxDataCarrierSize_def)

lemma payToPubKeyHashScript_ok:
  "length h = 20 \<Longrightarrow> payToPubKeyHashScript h = Inr ([OP_DUP, OP_HASH160, 20] @ h @ [OP_EQUALVERIFY, OP_CHECKSIG])"
  by (simp add: payToPubKeyHashScript_def Script_of_def AddData_def AddOp_def NewScriptBuilder_def addData_def
      MaxScriptSize_def MaxScriptElementSize_def canonicalDataSize_def Next_pushBytes_direct(1))

lemma payToScriptHashScript_ok:
  "length h = 20 \<Longrightarrow> payToScriptHashScript h = Inr ([OP_HASH160, 20] @ h @ [OP_EQUAL])"
  by (simp add: payToScriptHashScript_def Script_of_def AddData_def AddOp_def NewScriptBuilder_def addData_def
      MaxScriptSize_def MaxScriptElementSize_def canonicalDataSize_def Next_pushBytes_direct(1))

lemma last_not_multisig: "last s \<noteq> OP_CHECKMULTISIG \<Longrightarrow> \<not> isMultisigScript s"
  by (simp add: isMultisigScript_def extractMultisigScriptDetails_def)

lemma not_smallint_not_multisig: "Next s = Some (Inr (op, d, r)) \<Longrightarrow> \<not> IsSmallInt op \<Longrightarrow> \<not> isMultisigScript s"
  by (simp add: isMultisigScript_def extractMultisigScriptDetails_def)

lemma OP_RETURN_class:
  assumes "hd s = OP_RETURN" "s \<noteq> []"
  shows "GetScriptClass s = (if isNullDataScript s then NullDataTy else NonStandardTy)"
proof -
  obtain r where s: "s = OP_RETURN # r" using assms by (cases s) simp_all
  have "Next s = Some (Inr (OP_RETURN, None, r))"
    by (simp add: s Next_def opcodeLength_def opcodes)
  moreover have "\<not> IsSmallInt OP_RETURN" by (simp add: IsSmallInt_def opcodes word_le_nat_alt)
  ultimately have "\<not> isMultisigScript s" by (rule not_smallint_not_multisig)
  then show ?thesis
    by (simp add: GetScriptClass_def s isPubKeyScript_def extractPubKeyHash_def extractScriptHash_def
        isWitnessPubKeyHashScript_def isWitnessScriptHashScript_def isWitnessTaprootScript_def opcodes)
qed

lemma null_push_class:
  assumes "2 \<le> length data" "length data \<le> MaxDataCarrierSize"
  shows "GetScriptClass (OP_RETURN # pushBytes data) = NullDataTy"
proof -
  have "length data \<le> MaxScriptElementSize"
    using assms(2) by (simp add: MaxDataCarrierSize_def MaxScriptElementSize_def)
  then obtain op where op: "Next (pushBytes data @ []) = Some (Inr (op, Some data, []))" "op \<le> OP_PUSHDATA4"
    using Next_pushBytes [OF assms(1)] by blast
  then have "isNullDataScript (OP_RETURN # pushBytes data)"
    using assms by (auto simp: isNullDataScript_def)
  then show ?thesis by (simp add: OP_RETURN_class)
qed

lemma class_p2pkh:
  "length h = 20 \<Longrightarrow> GetScriptClass ([OP_DUP, OP_HASH160, 20] @ h @ [OP_EQUALVERIFY, OP_CHECKSIG]) = PubKeyHashTy"
  by (simp add: GetScriptClass_def isPubKeyScript_def extractPubKeyHash_def nth_append)

lemma class_p2sh: "length h = 20 \<Longrightarrow> GetScriptClass ([OP_HASH160, 20] @ h @ [OP_EQUAL]) = ScriptHashTy"
  by (simp add: GetScriptClass_def isPubKeyScript_def extractPubKeyHash_def extractScriptHash_def nth_append)

end
