(* ===== verification/Tags.thy ===== *)
theory Tags
  imports Script
begin

text \<open>
  The bridge's metadata, \<open>cmd/dogevm/tags.go\<close>: destinations, the tags carried by
  OP_RETURN outputs, and the readers that recover them from a transaction.
\<close>

section \<open>Tags\<close>

definition tagDeposit :: bytes where "tagDeposit = [0x44, 0x56, 0x4d, 0x44]"
definition tagRelease :: bytes where "tagRelease = [0x44, 0x56, 0x4d, 0x49]"
definition tagPegOut :: bytes where "tagPegOut = [0x44, 0x56, 0x4d, 0x4f]"
definition tagPayment :: bytes where "tagPayment = [0x44, 0x56, 0x4d, 0x52]"
definition tagRefund :: bytes where "tagRefund = [0x44, 0x56, 0x4d, 0x46]"
definition tagContrib :: bytes where "tagContrib = [0x44, 0x56, 0x4d, 0x43]"
definition tagCancel :: bytes where "tagCancel = [0x44, 0x56, 0x4d, 0x58]"
definition tagFence :: bytes where "tagFence = [0x44, 0x56, 0x4d, 0x5a]"

lemmas tag_defs = tagDeposit_def tagRelease_def tagPegOut_def tagPayment_def tagRefund_def tagContrib_def
  tagCancel_def tagFence_def

definition destP2PKH :: byte where "destP2PKH = 0"
definition destP2SH :: byte where "destP2SH = 1"

section \<open>Destinations\<close>

record destination =
  kind :: byte
  dhash :: bytes

definition zeroDestination :: destination where
  "zeroDestination = \<lparr>kind = 0, dhash = replicate 20 0\<rparr>"

definition pkScript :: "destination \<Rightarrow> bytes" where
  "pkScript d = (if kind d = destP2SH
     then script (AddOp OP_EQUAL (AddData (dhash d) (AddOp OP_HASH160 NewScriptBuilder)))
     else script (AddOp OP_CHECKSIG (AddOp OP_EQUALVERIFY (AddData (dhash d)
            (AddOp OP_HASH160 (AddOp OP_DUP NewScriptBuilder))))))"

definition destinationOfScript :: "bytes \<Rightarrow> destination option" where
  "destinationOfScript s = (case GetScriptClass s of
     PubKeyHashTy \<Rightarrow> Some \<lparr>kind = destP2PKH, dhash = take 20 (drop 3 s)\<rparr>
   | ScriptHashTy \<Rightarrow> Some \<lparr>kind = destP2SH, dhash = take 20 (drop 2 s)\<rparr>
   | _ \<Rightarrow> None)"

definition encodeDestination :: "bytes \<Rightarrow> destination \<Rightarrow> bytes" where
  "encodeDestination tag d = tag @ [kind d] @ dhash d"

definition decodeDestination :: "bytes \<Rightarrow> destination option" where
  "decodeDestination payload = (if length payload \<noteq> 1 + 20 \<or> payload ! 0 > destP2SH then None
     else Some \<lparr>kind = payload ! 0, dhash = drop 1 payload\<rparr>)"

section \<open>Encoding and reading tags\<close>

definition encodeOutPointTag :: "bytes \<Rightarrow> OutPoint \<Rightarrow> bytes" where
  "encodeOutPointTag tag op = tag @ Hash op @ le_bytes 4 (unat (Index op))"

definition encodeRelease :: "OutPoint \<Rightarrow> bytes" where
  "encodeRelease deposit = encodeOutPointTag tagRelease deposit"

definition encodeCancel :: "OutPoint \<Rightarrow> bytes" where
  "encodeCancel deposit = encodeOutPointTag tagCancel deposit"

definition encodeRefund :: "OutPoint \<Rightarrow> bytes" where
  "encodeRefund deposit = encodeOutPointTag tagRefund deposit"

definition encodePayment :: "bytes \<Rightarrow> bytes" where
  "encodePayment request = tagPayment @ request"

text \<open>The loop of \<open>opReturnData\<close>: how many null data outputs, and the data of the last.\<close>

fun scanNullData :: "TxOut list \<Rightarrow> nat \<Rightarrow> bytes \<Rightarrow> (nat \<times> bytes) option" where
  "scanNullData [] found data = Some (found, data)"
| "scanNullData (out # outs) found data =
     (if GetScriptClass (PkScript out) \<noteq> NullDataTy then scanNullData outs found data
      else case PushedData (PkScript out) of
        Inl e \<Rightarrow> None
      | Inr pushes \<Rightarrow> scanNullData outs (found + 1) (concat pushes))"

definition opReturnData :: "MsgTx \<Rightarrow> (bytes \<times> bytes) option" where
  "opReturnData tx = (case scanNullData (TxOut tx) 0 [] of
     None \<Rightarrow> None
   | Some (found, data) \<Rightarrow> if found \<noteq> 1 \<or> length data < 4 then None else Some (take 4 data, drop 4 data))"

text \<open>\<open>nullData\<close> panics when the data is too long for an OP_RETURN output: \<open>None\<close>.\<close>

definition nullData :: "bytes \<Rightarrow> TxOut option" where
  "nullData data = (case NullDataScript data of Inl e \<Rightarrow> None | Inr s \<Rightarrow> Some (NewTxOut 0 s))"

definition parseOutPointTag :: "MsgTx \<Rightarrow> bytes \<Rightarrow> OutPoint option" where
  "parseOutPointTag tx want = (case opReturnData tx of
     None \<Rightarrow> None
   | Some (tag, payload) \<Rightarrow> if tag \<noteq> want \<or> length payload \<noteq> 36 then None
       else Some \<lparr>Hash = take 32 payload, Index = word_of_nat (le_val (drop 32 payload))\<rparr>)"

definition parseRelease :: "MsgTx \<Rightarrow> OutPoint option" where
  "parseRelease tx = parseOutPointTag tx tagRelease"

definition parseRefund :: "MsgTx \<Rightarrow> OutPoint option" where
  "parseRefund tx = parseOutPointTag tx tagRefund"

definition parseCancel :: "MsgTx \<Rightarrow> OutPoint option" where
  "parseCancel tx = parseOutPointTag tx tagCancel"

definition parsePayment :: "MsgTx \<Rightarrow> bytes option" where
  "parsePayment tx = (case opReturnData tx of
     None \<Rightarrow> None
   | Some (tag, payload) \<Rightarrow> if tag \<noteq> tagPayment \<or> length payload \<noteq> 32 then None else Some payload)"

definition isContribution :: "MsgTx \<Rightarrow> bool" where
  "isContribution tx = (case opReturnData tx of
     None \<Rightarrow> False | Some (tag, payload) \<Rightarrow> tag = tagContrib \<and> payload = [])"

definition parseDestinationTag :: "MsgTx \<Rightarrow> bytes \<Rightarrow> destination option" where
  "parseDestinationTag tx want = (case opReturnData tx of
     None \<Rightarrow> None
   | Some (tag, payload) \<Rightarrow> if tag \<noteq> want then None else decodeDestination payload)"

section \<open>Well-formed destinations\<close>

definition wf_destination :: "destination \<Rightarrow> bool" where
  "wf_destination d \<longleftrightarrow> (kind d = destP2PKH \<or> kind d = destP2SH) \<and> length (dhash d) = 20"

lemma pkScript_p2sh: "kind d = destP2SH \<Longrightarrow> length (dhash d) = 20 \<Longrightarrow>
    pkScript d = [OP_HASH160, 20] @ dhash d @ [OP_EQUAL]"
  using payToScriptHashScript_ok [of "dhash d"]
  by (auto simp: pkScript_def payToScriptHashScript_def Script_of_def split: option.splits)

lemma pkScript_p2pkh: "kind d \<noteq> destP2SH \<Longrightarrow> length (dhash d) = 20 \<Longrightarrow>
    pkScript d = [OP_DUP, OP_HASH160, 20] @ dhash d @ [OP_EQUALVERIFY, OP_CHECKSIG]"
  using payToPubKeyHashScript_ok [of "dhash d"]
  by (auto simp: pkScript_def payToPubKeyHashScript_def Script_of_def split: option.splits)

lemma dest_kinds [simp]: "destP2PKH \<noteq> destP2SH" "destP2SH \<noteq> destP2PKH"
  by (simp_all add: destP2PKH_def destP2SH_def)

lemma class_pkScript: "wf_destination d \<Longrightarrow> GetScriptClass (pkScript d) = (if kind d = destP2SH then ScriptHashTy else PubKeyHashTy)"
  by (auto simp: wf_destination_def pkScript_p2sh pkScript_p2pkh class_p2sh [simplified] class_p2pkh [simplified])

lemma destinationOfScript_pkScript [simp, wire_rt]: "wf_destination d \<Longrightarrow> destinationOfScript (pkScript d) = Some d"
  by (auto simp: destinationOfScript_def class_pkScript)
     (auto simp: wf_destination_def pkScript_p2sh pkScript_p2pkh)

lemma class_PubKeyHashTy: "GetScriptClass s = PubKeyHashTy \<Longrightarrow> extractPubKeyHash s \<noteq> None"
  by (auto simp: GetScriptClass_def split: if_splits)

lemma class_ScriptHashTy: "GetScriptClass s = ScriptHashTy \<Longrightarrow> extractScriptHash s \<noteq> None"
  by (auto simp: GetScriptClass_def split: if_splits)

lemma list_split_at: "i < length s \<Longrightarrow> s = take i s @ [s ! i] @ drop (Suc i) s"
  by (simp add: id_take_nth_drop)

lemma extractPubKeyHash_shape: "extractPubKeyHash s = Some h \<Longrightarrow>
    length h = 20 \<and> s = [OP_DUP, OP_HASH160, 20] @ h @ [OP_EQUALVERIFY, OP_CHECKSIG]"
proof -
  assume a: "extractPubKeyHash s = Some h"
  then have l: "length s = 25" and h: "h = take 20 (drop 3 s)"
    by (auto simp: extractPubKeyHash_def split: if_splits)
  have d23: "drop 23 s = [s ! 23, s ! 24]"
    using l Cons_nth_drop_Suc [of 23 s] Cons_nth_drop_Suc [of 24 s] by simp
  have "s = take 3 s @ take 20 (drop 3 s) @ drop 20 (drop 3 s)"
    by (simp del: drop_drop)
  moreover have "drop 20 (drop 3 s) = drop 23 s" by simp
  moreover have "take 3 s = [s ! 0, s ! 1, s ! 2]"
    using l by (auto simp: numeral_3_eq_3 take_Suc_conv_app_nth numeral_2_eq_2)
  ultimately show ?thesis
    using a l h d23 by (auto simp: extractPubKeyHash_def split: if_splits)
qed

lemma extractScriptHash_shape: "extractScriptHash s = Some h \<Longrightarrow>
    length h = 20 \<and> s = [OP_HASH160, 20] @ h @ [OP_EQUAL]"
proof -
  assume a: "extractScriptHash s = Some h"
  then have l: "length s = 23" and h: "h = take 20 (drop 2 s)"
    by (auto simp: extractScriptHash_def split: if_splits)
  have d22: "drop 22 s = [s ! 22]"
    using l Cons_nth_drop_Suc [of 22 s] by simp
  have "s = take 2 s @ take 20 (drop 2 s) @ drop 20 (drop 2 s)"
    by (simp del: drop_drop)
  moreover have "drop 20 (drop 2 s) = drop 22 s" by simp
  moreover have "take 2 s = [s ! 0, s ! 1]"
    using l by (auto simp: take_Suc_conv_app_nth numeral_2_eq_2)
  ultimately show ?thesis
    using a l h d22 by (auto simp: extractScriptHash_def split: if_splits)
qed

lemma destinationOfScript_Some:
  "destinationOfScript s = Some d \<Longrightarrow> wf_destination d \<and> pkScript d = s"
  by (auto simp: destinationOfScript_def wf_destination_def pkScript_p2sh pkScript_p2pkh
      split: ScriptClass.splits
      dest!: class_PubKeyHashTy class_ScriptHashTy extractPubKeyHash_shape extractScriptHash_shape)

lemma pkScript_inj: "wf_destination a \<Longrightarrow> wf_destination b \<Longrightarrow> pkScript a = pkScript b \<longleftrightarrow> a = b"
  by (metis destinationOfScript_pkScript option.inject)

lemma decodeDestination_encode [simp, wire_rt]:
  "wf_destination d \<Longrightarrow> decodeDestination (kind d # dhash d) = Some d"
  by (auto simp: decodeDestination_def wf_destination_def destP2PKH_def destP2SH_def)

lemma decodeDestination_Some: "decodeDestination p = Some d \<Longrightarrow> wf_destination d \<and> p = kind d # dhash d"
proof -
  assume "decodeDestination p = Some d"
  then have l: "length p = 21" and k: "p ! 0 \<le> destP2SH" and d: "d = \<lparr>kind = p ! 0, dhash = drop 1 p\<rparr>"
    by (auto simp: decodeDestination_def not_less split: if_splits)
  obtain b q where p: "p = b # q" using l by (cases p) simp_all
  have "unat b \<le> 1" using k p by (simp add: destP2SH_def word_le_nat_alt)
  then have "b = 0 \<or> b = 1"
    by (metis One_nat_def le_Suc_eq le_zero_eq unsigned_0 unsigned_1 unsigned_word_eqI)
  then show ?thesis using p d l by (auto simp: wf_destination_def destP2PKH_def destP2SH_def)
qed

section \<open>OP_RETURN outputs\<close>

lemma nullData_ok: "length data \<le> MaxDataCarrierSize \<Longrightarrow>
    nullData data = Some \<lparr>Value = 0, PkScript = OP_RETURN # pushBytes data\<rparr>"
  by (simp add: nullData_def NullDataScript_ok NewTxOut_def)

lemma scanNullData_skip: "list_all (\<lambda>o'. GetScriptClass (PkScript o') \<noteq> NullDataTy) a \<Longrightarrow>
    scanNullData (a @ b) n d = scanNullData b n d"
  by (induction a) simp_all

lemma opReturnData_one:
  assumes "nullData data = Some nd" "4 \<le> length data" "length data \<le> MaxDataCarrierSize" "TxOut tx = a @ nd # b"
    and "list_all (\<lambda>o'. GetScriptClass (PkScript o') \<noteq> NullDataTy) (a @ b)"
  shows "opReturnData tx = Some (take 4 data, drop 4 data)"
proof -
  have l: "2 \<le> length data" "length data \<le> MaxScriptElementSize"
    using assms(2,3) by (simp_all add: MaxDataCarrierSize_def MaxScriptElementSize_def)
  have nd: "PkScript nd = OP_RETURN # pushBytes data"
    using assms(1,3) by (auto simp: nullData_ok)
  have "PushedData (OP_RETURN # pushBytes data) = Inr [data]"
    using PushedData_push [OF l, of "[]"] by (simp add: PushedData_RETURN)
  then have "scanNullData (TxOut tx) 0 [] = scanNullData b 1 data"
    using assms(4,5) null_push_class [OF l(1) assms(3)] by (simp add: scanNullData_skip nd)
  also have "\<dots> = Some (1, data)"
    using scanNullData_skip [of b "[]" 1 data] assms(5) by simp
  finally show ?thesis using assms(2) by (simp add: opReturnData_def)
qed

lemma parseOutPointTag_encode:
  assumes "opReturnData tx = Some (take 4 (encodeOutPointTag tag op), drop 4 (encodeOutPointTag tag op))"
    and "length tag = 4" "wf_OutPoint op"
  shows "parseOutPointTag tx tag = Some op"
  using assms unat_word32 [of "Index op"]
  by (simp add: parseOutPointTag_def encodeOutPointTag_def wf_OutPoint_def HashSize_def)

lemma tags_distinct: "distinct [tagDeposit, tagRelease, tagPegOut, tagPayment, tagRefund, tagContrib, tagCancel, tagFence]"
  by (simp add: tag_defs)

lemma parseOutPointTag_wf: "parseOutPointTag tx tag = Some op \<Longrightarrow> wf_OutPoint op"
  by (auto simp: parseOutPointTag_def wf_OutPoint_def HashSize_def split: option.splits if_splits)

section \<open>Properties\<close>

text \<open>C18: the scripts read as a destination are exactly the scripts of the well-formed
  destinations, and each names the destination it was made from.\<close>

theorem destination_of_script_iff:
  "destinationOfScript s = Some d \<longleftrightarrow> wf_destination d \<and> pkScript d = s"
  using destinationOfScript_Some [of s d] destinationOfScript_pkScript [of d] by auto

end
