(* ===== verification/Amounts.thy ===== *)
theory Amounts
  imports Strconv
begin

text \<open>
  Amounts of DOGE as text, \<open>formatDoge\<close> and \<open>parseDoge\<close> of \<open>cmd/dogevm/params.go\<close>.
  Amounts are koinu, int64 in the source, and integers here; the one operation
  whose result may leave the range, the negation in \<open>formatDoge\<close>, is wrapped.
\<close>

definition koinuPerDoge :: int where "koinuPerDoge = 100000000"

section \<open>Printing\<close>

text \<open>\<open>%08d\<close>: zeros between the sign and the digits up to a width of eight.\<close>

definition pad08 :: "int \<Rightarrow> string" where
  "pad08 x = (let w = (if x < 0 then 7 else 8); ds = formatUint (nat \<bar>x\<bar>) in
     (if x < 0 then ''-'' else []) @ replicate (w - length ds) CHR ''0'' @ ds)"

text \<open>Division truncates towards zero, as Go's does.\<close>

definition quot :: "int \<Rightarrow> int \<Rightarrow> int" where
  "quot a b = sgn a * sgn b * (\<bar>a\<bar> div \<bar>b\<bar>)"

definition rem :: "int \<Rightarrow> int \<Rightarrow> int" where
  "rem a b = a - quot a b * b"

definition formatDoge :: "int \<Rightarrow> string" where
  "formatDoge koinu =
     (let sign = (if koinu < 0 then ''-'' else []); koinu = (if koinu < 0 then i64 (- koinu) else koinu) in
      sign @ formatInt (quot koinu koinuPerDoge) @ ''.'' @ pad08 (rem koinu koinuPerDoge))"

section \<open>Parsing\<close>

datatype aerr = EmptyAmount | AmountTooLarge | InvalidAmount

fun parseDogeLoop :: "string \<Rightarrow> int \<Rightarrow> int \<Rightarrow> nat \<Rightarrow> bool \<Rightarrow> aerr + (int \<times> int \<times> nat)" where
  "parseDogeLoop [] whole frac fracDigits seenDot = Inr (whole, frac, fracDigits)"
| "parseDogeLoop (c # cs) whole frac fracDigits seenDot =
     (if c = CHR ''.'' \<and> \<not> seenDot then parseDogeLoop cs whole frac fracDigits True
      else case undigit c of
        None \<Rightarrow> Inl InvalidAmount
      | Some d \<Rightarrow>
          if \<not> seenDot then
            (let whole = whole * 10 + int d in
             if whole > 10000000000 then Inl AmountTooLarge else parseDogeLoop cs whole frac fracDigits seenDot)
          else if fracDigits < 8 then parseDogeLoop cs whole (frac * 10 + int d) (fracDigits + 1) seenDot
          else Inl InvalidAmount)"

definition parseDoge :: "string \<Rightarrow> aerr + int" where
  "parseDoge s = (if s = [] then Inl EmptyAmount
     else bindr (parseDogeLoop s 0 0 0 False) (\<lambda>(whole, frac, fracDigits).
       Inr (whole * koinuPerDoge + frac * 10 ^ (8 - fracDigits))))"

section \<open>Printing then parsing\<close>

lemma undigit_dot [simp]: "undigit CHR ''.'' = None"
  by (simp add: undigit_def)

lemma digitsVal_mono: "digitsVal a s = Some v \<Longrightarrow> a \<le> v"
  by (induction s arbitrary: a) (fastforce split: option.splits)+

lemma undigit_not_dot: "undigit c = Some d \<Longrightarrow> c \<noteq> CHR ''.''"
  by auto

text \<open>Before the dot the loop reads a number; after it, up to eight digits.\<close>

lemma parse_whole:
  "digitsVal a s = Some v \<Longrightarrow> v \<le> 10000000000 \<Longrightarrow>
   parseDogeLoop (s @ t) (int a) f n False = parseDogeLoop t (int v) f n False"
proof (induction s arbitrary: a)
  case (Cons c s)
  then obtain d where d: "undigit c = Some d" "digitsVal (10 * a + d) s = Some v"
    by (auto split: option.splits)
  from digitsVal_mono [OF d(2)] Cons.prems(2) have "int a * 10 + int d \<le> 10000000000" by simp
  moreover have "int a * 10 + int d = int (10 * a + d)" by simp
  ultimately show ?case
    using Cons.IH [OF d(2) Cons.prems(2)] d(1) undigit_not_dot [OF d(1)] by (simp add: Let_def mult.commute [of "int a" 10])
qed simp

lemma parse_frac:
  "digitsVal a s = Some v \<Longrightarrow> n + length s \<le> 8 \<Longrightarrow>
   parseDogeLoop s w (int a) n True = Inr (w, int v, n + length s)"
proof (induction s arbitrary: a n)
  case (Cons c s)
  then obtain d where d: "undigit c = Some d" "digitsVal (10 * a + d) s = Some v"
    by (auto split: option.splits)
  have e: "int a * 10 + int d = int (10 * a + d)" by simp
  have "n < 8" using Cons.prems(2) by simp
  moreover have "parseDogeLoop s w (int (10 * a + d)) (n + 1) True = Inr (w, int v, n + 1 + length s)"
    using Cons.IH [OF d(2), of "n + 1"] Cons.prems(2) by simp
  ultimately show ?case using d(1) by (simp add: e)
qed simp

text \<open>The text of an amount with any number of fraction digits.\<close>

lemma parseDoge_text:
  assumes "digitsVal 0 ws = Some w" "w \<le> 10000000000" "ws \<noteq> []" "digitsVal 0 fs = Some f" "length fs \<le> 8"
  shows "parseDoge (ws @ ''.'' @ fs) = Inr (int w * koinuPerDoge + int f * 10 ^ (8 - length fs))"
    and "parseDoge ws = Inr (int w * koinuPerDoge)"
proof -
  have "parseDogeLoop (ws @ ''.'' @ fs) 0 0 0 False = Inr (int w, int f, length fs)"
    using parse_whole [OF assms(1,2), of "''.'' @ fs" 0 0] parse_frac [OF assms(4), of 0 "int w"] assms(5) by simp
  then show "parseDoge (ws @ ''.'' @ fs) = Inr (int w * koinuPerDoge + int f * 10 ^ (8 - length fs))"
    by (simp add: parseDoge_def)
  have "parseDogeLoop (ws @ []) 0 0 0 False = Inr (int w, 0, 0)"
    using parse_whole [OF assms(1,2), of "[]" 0 0] by simp
  then show "parseDoge ws = Inr (int w * koinuPerDoge)"
    using assms(3) by (simp add: parseDoge_def)
qed

lemma digitsVal_zeros: "digitsVal a (replicate n CHR ''0'' @ s) = digitsVal (a * 10 ^ n) s"
  by (induction n arbitrary: a) (simp_all add: undigit_def algebra_simps)

lemma length_formatUint: "n < 10 ^ Suc k \<Longrightarrow> length (formatUint n) \<le> Suc k"
proof (induction k arbitrary: n)
  case 0
  then show ?case by (subst formatUint.simps) simp
next
  case (Suc k)
  show ?case
  proof (cases "n < 10")
    case True then show ?thesis by (subst formatUint.simps) simp
  next
    case False
    have "n div 10 < 10 ^ Suc k" using Suc.prems by (simp add: less_mult_imp_div_less)
    then show ?thesis using Suc.IH [of "n div 10"] False by (subst formatUint.simps) simp
  qed
qed

lemma pad08_val: "0 \<le> x \<Longrightarrow> digitsVal 0 (pad08 x) = Some (nat x)"
  by (simp add: pad08_def digitsVal_zeros Let_def)

lemma pad08_length: "0 \<le> x \<Longrightarrow> x < koinuPerDoge \<Longrightarrow> length (pad08 x) = 8"
  using length_formatUint [of "nat x" 7] by (simp add: pad08_def koinuPerDoge_def Let_def)

lemma koinuPerDoge_pos: "0 < koinuPerDoge"
  by (simp add: koinuPerDoge_def)

lemma quot_rem_nonneg: "0 \<le> a \<Longrightarrow> quot a koinuPerDoge = a div koinuPerDoge"
    "0 \<le> a \<Longrightarrow> rem a koinuPerDoge = a mod koinuPerDoge"
  by (cases "a = 0"; simp add: quot_def rem_def koinuPerDoge_def minus_div_mult_eq_mod)+

lemma formatDoge_nonneg: "0 \<le> k \<Longrightarrow>
    formatDoge k = formatUint (nat (k div koinuPerDoge)) @ ''.'' @ pad08 (k mod koinuPerDoge)"
  using pos_imp_zdiv_nonneg_iff [of koinuPerDoge k] koinuPerDoge_pos
  by (simp add: formatDoge_def quot_rem_nonneg formatInt_def)

lemma parseDoge_formatDoge:
  assumes "0 \<le> k" "k < 10000000001 * koinuPerDoge"
  shows "parseDoge (formatDoge k) = Inr k"
proof -
  let ?w = "nat (k div koinuPerDoge)" and ?f = "k mod koinuPerDoge"
  have pos: "0 < koinuPerDoge" by (simp add: koinuPerDoge_def)
  have d: "0 \<le> k div koinuPerDoge" "k div koinuPerDoge < 10000000001"
    using assms pos by (simp_all add: pos_imp_zdiv_nonneg_iff koinuPerDoge_def)
  have f: "0 \<le> ?f" "?f < koinuPerDoge" using pos by simp_all
  have "parseDoge (formatUint ?w @ ''.'' @ pad08 ?f) = Inr (int ?w * koinuPerDoge + int (nat ?f) * 10 ^ (8 - length (pad08 ?f)))"
    by (rule parseDoge_text(1)) (use d f in \<open>auto simp: pad08_val pad08_length\<close>)
  then show ?thesis
    using assms(1) d f by (simp add: formatDoge_nonneg pad08_length)
qed

lemma parseDogeLoop_bounds:
  "parseDogeLoop s w f n b = Inr (w', f', n') \<Longrightarrow> 0 \<le> w \<Longrightarrow> w \<le> 10000000000 \<Longrightarrow> 0 \<le> f \<Longrightarrow> f < 10 ^ n \<Longrightarrow> n \<le> 8 \<Longrightarrow>
   0 \<le> w' \<and> w' \<le> 10000000000 \<and> 0 \<le> f' \<and> f' < 10 ^ n' \<and> n' \<le> 8"
proof (induction s arbitrary: w f n b)
  case (Cons c s)
  have "f * 10 + int d < 10 ^ Suc n" if "d < 10" for d
  proof -
    have "f + 1 \<le> 10 ^ n" using Cons.prems(5) by simp
    then have "(f + 1) * 10 \<le> 10 ^ n * 10" by (rule mult_right_mono) simp
    then show ?thesis using that by (simp add: algebra_simps)
  qed
  moreover have "undigit c = Some d \<Longrightarrow> d < 10" for d
    by (auto simp: undigit_def Let_def split: if_splits)
  ultimately show ?case
    using Cons.prems
    by (auto simp: Let_def split: if_splits option.splits intro: Cons.IH dest!: Cons.IH)
qed simp

section \<open>Properties\<close>

text \<open>Every amount up to ten billion DOGE and its fraction is parsed back from its text.\<close>

theorem parse_format_amount:
  assumes "0 \<le> k" "k < 10000000001 * koinuPerDoge"
  shows "parseDoge (formatDoge k) = Inr k"
  using assms by (rule parseDoge_formatDoge)

theorem parse_format_amount_witness: "parseDoge (formatDoge 123456789) = Inr 123456789 \<and> formatDoge 123456789 = ''1.23456789''"
proof -
  have "formatDoge 123456789 = ''1.23456789''" by code_simp
  then show ?thesis using parse_format_amount [of 123456789] by (simp add: koinuPerDoge_def)
qed

text \<open>A parsed amount is never negative and far inside int64, so the arithmetic of the
  parser cannot wrap.\<close>

theorem parsed_amount_bounds:
  assumes "parseDoge s = Inr k"
  shows "0 \<le> k \<and> k < 10000000001 * koinuPerDoge \<and> in_i64 k"
proof -
  obtain w f n where l: "parseDogeLoop s 0 0 0 False = Inr (w, f, n)" and k: "k = w * koinuPerDoge + f * 10 ^ (8 - n)"
    using assms by (auto simp: parseDoge_def split: if_splits)
  have b: "0 \<le> w" "w \<le> 10000000000" "0 \<le> f" "f < 10 ^ n" "n \<le> 8"
    using parseDogeLoop_bounds [OF l] by auto
  have "f * 10 ^ (8 - n) < 10 ^ n * 10 ^ (8 - n)" using b(4) by simp
  also have "\<dots> = koinuPerDoge" using b(5) by (simp add: koinuPerDoge_def flip: power_add)
  finally have "f * 10 ^ (8 - n) < koinuPerDoge" .
  moreover have "0 \<le> f * 10 ^ (8 - n)" using b(3) by simp
  ultimately show ?thesis using b(1,2) by (auto simp: k koinuPerDoge_def in_i64_def)
qed

theorem parsed_amount_bounds_witness: "parseDoge ''2.5'' = Inr 250000000 \<and> in_i64 250000000"
proof -
  have "parseDoge ''2.5'' = Inr 250000000" by code_simp
  then show ?thesis using parsed_amount_bounds [of "''2.5''" 250000000] by simp
qed

text \<open>A lone dot has no digits and still parses, as zero.\<close>

lemma parseDoge_lone_dot: "parseDoge ''.'' = Inr 0"
  by code_simp

end
