(* ===== verification/Effects.thy ===== *)
theory Effects
  imports Prelude
begin

text \<open>
  Handlers that change state and may fail.  A Go handler that returns an error keeps
  whatever it wrote before, so an effect gives its result and its final state in both cases.
\<close>

type_synonym ('s, 'e, 'a) effect = "'s \<Rightarrow> ('e + 'a) \<times> 's"

definition bindm :: "('s, 'e, 'a) effect \<Rightarrow> ('a \<Rightarrow> ('s, 'e, 'b) effect) \<Rightarrow> ('s, 'e, 'b) effect" where
  "bindm m f = (\<lambda>s. case m s of (Inl e, s') \<Rightarrow> (Inl e, s') | (Inr a, s') \<Rightarrow> f a s')"

definition retm :: "'a \<Rightarrow> ('s, 'e, 'a) effect" where "retm a = (\<lambda>s. (Inr a, s))"
definition failm :: "'e \<Rightarrow> ('s, 'e, 'a) effect" where "failm e = (\<lambda>s. (Inl e, s))"
definition liftm :: "'e + 'a \<Rightarrow> ('s, 'e, 'a) effect" where "liftm r = (\<lambda>s. (r, s))"
definition readm :: "('s \<Rightarrow> 'a) \<Rightarrow> ('s, 'e, 'a) effect" where "readm f = (\<lambda>s. (Inr (f s), s))"
definition modifym :: "('s \<Rightarrow> 's) \<Rightarrow> ('s, 'e, unit) effect" where "modifym f = (\<lambda>s. (Inr (), f s))"
definition guardm :: "bool \<Rightarrow> 'e \<Rightarrow> ('s, 'e, unit) effect" where "guardm b e = (if b then retm () else failm e)"

section \<open>Laws\<close>

lemma bindm_retm [simp]: "bindm (retm a) f = f a"
  by (rule ext) (simp add: bindm_def retm_def)

lemma bindm_ret_right [simp]: "bindm m retm = m"
  by (rule ext) (simp add: bindm_def retm_def case_prod_beta prod_eq_iff split: sum.split)

lemma bindm_failm [simp]: "bindm (failm e) f = failm e"
  by (rule ext) (simp add: bindm_def failm_def)

lemma bindm_assoc: "bindm (bindm m f) g = bindm m (\<lambda>a. bindm (f a) g)"
  by (rule ext) (simp add: bindm_def case_prod_beta split: sum.split)

section \<open>What a successful run did\<close>

lemma bindm_Inr_iff: "bindm m f s = (Inr b, s') \<longleftrightarrow> (\<exists>a t. m s = (Inr a, t) \<and> f a t = (Inr b, s'))"
  by (auto simp: bindm_def case_prod_beta prod_eq_iff split: sum.split)

lemma bindm_InrE [elim!]:
  assumes "bindm m f s = (Inr b, s')"
  obtains a t where "m s = (Inr a, t)" "f a t = (Inr b, s')"
  using assms by (auto simp: bindm_Inr_iff)

lemma effect_simps [simp, res_simps]:
  "retm a s = (Inr b, s') \<longleftrightarrow> b = a \<and> s' = s"
  "failm e s = (Inr b, s') \<longleftrightarrow> False"
  "liftm r s = (Inr b, s') \<longleftrightarrow> r = Inr b \<and> s' = s"
  "readm f s = (Inr b, s') \<longleftrightarrow> b = f s \<and> s' = s"
  "modifym g s = (Inr u, s') \<longleftrightarrow> s' = g s"
  "guardm c e s = (Inr u, s') \<longleftrightarrow> c \<and> s' = s"
  by (auto simp: retm_def failm_def liftm_def readm_def modifym_def guardm_def)

text \<open>How each effect runs, for evaluating a handler on a given state.\<close>

lemma effect_run:
  "bindm m f s = (case m s of (Inl e, s') \<Rightarrow> (Inl e, s') | (Inr a, s') \<Rightarrow> f a s')"
  "retm b s = (Inr b, s)" "failm x s = (Inl x, s)" "liftm r s = (r, s)" "readm h s = (Inr (h s), s)"
  "modifym g s = (Inr (), g s)" "guardm c y s = (if c then Inr () else Inl y, s)"
  by (simp_all add: bindm_def retm_def failm_def liftm_def readm_def modifym_def guardm_def)

section \<open>What every run keeps\<close>

text \<open>A property of the state that an effect keeps, whether it succeeds or fails.\<close>

definition keeps :: "('s \<Rightarrow> bool) \<Rightarrow> ('s, 'e, 'a) effect \<Rightarrow> bool" where
  "keeps P m \<longleftrightarrow> (\<forall>s. P s \<longrightarrow> P (snd (m s)))"

lemma keepsD: "keeps P m \<Longrightarrow> P s \<Longrightarrow> m s = (r, s') \<Longrightarrow> P s'"
  by (auto simp: keeps_def)

lemma keeps_bindm [peg_inv]: "keeps P m \<Longrightarrow> (\<And>a. keeps P (f a)) \<Longrightarrow> keeps P (bindm m f)"
  by (simp add: keeps_def bindm_def case_prod_beta split: sum.split)

lemma keeps_pure [peg_inv]:
  "keeps P (retm a)" "keeps P (failm e)" "keeps P (liftm r)" "keeps P (readm f)" "keeps P (guardm c e)"
  by (simp_all add: keeps_def retm_def failm_def liftm_def readm_def guardm_def)

lemma keeps_modifym: "(\<And>s. P s \<Longrightarrow> P (g s)) \<Longrightarrow> keeps P (modifym g)"
  by (simp add: keeps_def modifym_def)

lemma keeps_if [peg_inv]: "(c \<Longrightarrow> keeps P m) \<Longrightarrow> (\<not> c \<Longrightarrow> keeps P n) \<Longrightarrow> keeps P (if c then m else n)"
  by simp

lemma keeps_option [peg_inv]: "keeps P m \<Longrightarrow> (\<And>x. keeps P (f x)) \<Longrightarrow> keeps P (case o' of None \<Rightarrow> m | Some x \<Rightarrow> f x)"
  by (cases o') simp_all

lemma keeps_sum [peg_inv]: "(\<And>e. keeps P (m e)) \<Longrightarrow> (\<And>x. keeps P (f x)) \<Longrightarrow> keeps P (case r of Inl e \<Rightarrow> m e | Inr x \<Rightarrow> f x)"
  by (cases r) simp_all

lemma keeps_prod [peg_inv]: "(\<And>x y. keeps P (f x y)) \<Longrightarrow> keeps P (case p of (x, y) \<Rightarrow> f x y)"
  by (cases p) simp

lemma keeps_Let [peg_inv]: "(\<And>x. keeps P (f x)) \<Longrightarrow> keeps P (Let x f)"
  by simp

end
