(* ===== verification/Peg.thy ===== *)
theory Peg
  imports Tags Amounts Effects "HOL-Library.List_Lexorder"
begin

text \<open>
  The data the bridge works with (\<open>cmd/dogevm/chains.go\<close>, \<open>bridge.go\<close>) and the signer
  set that holds the peg (\<open>signers.go\<close>).  An address is the output script it stands for.  What a chain's
  node answers is a record of functions, a parameter of what reads a chain.
\<close>

section \<open>Chains\<close>

record chainTx =
  t_tx :: MsgTx
  t_confirmations :: int
  t_time :: int

record utxo =
  u_outPoint :: OutPoint
  u_value :: int
  u_pkScript :: bytes
  u_confirmations :: int

datatype perr =
    ReadFailed | Panicked
  | LineEnded | NoLaterRoot | LineTooLong
  | NotEnough | InputsShort | PaysPeg | NotNeeded | FeeNotCovered | NoAnchor | AnchorBusy
  | CancelShort | NoRedeem | BadContribution | VmPending
  | ShallowFull | NotDeepEnough | FeeNotMore | FeeTooHigh | FeeOverHalf
  | BadTier | TierTooDeep | TiersNotRising | PolicyDisagrees
  | TooFewSigners | ScriptFailed | BadScript | NotSigHashAll | BadSignature | NoSuchSigner | SignatureCount

record chain =
  txsFor :: "bytes list \<Rightarrow> perr + chainTx list"
  unspent :: "bytes list \<Rightarrow> int \<Rightarrow> perr + utxo list"
  conflictedFor :: "(bytes list \<Rightarrow> perr + chainTx list) option"
  inBlock :: "(bytes \<Rightarrow> perr + bool) option"
  inUTXOSet :: "(OutPoint \<Rightarrow> perr + bool) option"

text \<open>The last three are what only some nodes can answer: \<open>conflictLister\<close>, \<open>confirmer\<close> and \<open>utxoSetter\<close>.\<close>

section \<open>The signer set\<close>

record confirmationTier =
  UpTo :: int
  Confirmations :: int

record pegPolicy =
  pol_Confirmations :: int
  pol_VMFee :: int
  pol_DogeFee :: int
  pol_MinDeposit :: int
  pol_MinPegOut :: int
  pol_MaxDeposit :: int
  pol_MaxCirculating :: int
  pol_ConfirmationTiers :: "confirmationTier list"

record signerSet =
  Required :: nat
  pubKeys :: "bytes list"
  redeemScript :: bytes

definition hash160Of :: "hashes \<Rightarrow> bytes \<Rightarrow> bytes" where
  "hash160Of H s = take 20 (hash160 H s @ replicate 20 0)"

definition p2shScript :: "hashes \<Rightarrow> bytes \<Rightarrow> bytes" where
  "p2shScript H redeem = pkScript \<lparr>kind = destP2SH, dhash = hash160Of H redeem\<rparr>"

definition signers_pkScript :: "hashes \<Rightarrow> signerSet \<Rightarrow> bytes" where
  "signers_pkScript H s = p2shScript H (redeemScript s)"

definition signers_destination :: "hashes \<Rightarrow> signerSet \<Rightarrow> destination" where
  "signers_destination H s = \<lparr>kind = destP2SH, dhash = hash160Of H (redeemScript s)\<rparr>"

definition depositRedeemScript :: "signerSet \<Rightarrow> destination \<Rightarrow> bytes" where
  "depositRedeemScript s dest = [21, kind dest] @ dhash dest @ [OP_DROP] @ redeemScript s"

text \<open>
  \<open>load\<close> of \<open>signers.go\<close>, from the serialized keys: parsing a point of the curve is the
  parameter \<open>parsePub\<close>, which returns the compressed form.
\<close>

definition signerSet_load ::
  "(bytes \<Rightarrow> bytes option) \<Rightarrow> nat \<Rightarrow> string list \<Rightarrow> signerSet option" where
  "signerSet_load parsePub required keys =
     (let parsed = map (\<lambda>h. Option.bind (hexDecode h) parsePub) keys in
      if None \<in> set parsed then None
      else let pubs = map the parsed in
        if required < 1 \<or> required > length pubs then None
        else case MultiSigScript pubs required of
          Inl e \<Rightarrow> None
        | Inr s \<Rightarrow> Some \<lparr>Required = required, pubKeys = pubs, redeemScript = s\<rparr>)"

text \<open>\<open>assemble\<close>: the first \<open>Required\<close> signers, in key order, sign every input.\<close>

definition assemble ::
  "signerSet \<Rightarrow> MsgTx \<Rightarrow> bytes list \<Rightarrow> (nat, bytes list) gomap \<Rightarrow> perr + MsgTx" where
  "assemble s tx redeemScripts sigs =
     (if length redeemScripts \<noteq> length (TxIn tx) then Inl NoRedeem else
      let signers = take (Required s) (filter (has_key sigs) [0..<length (pubKeys s)]) in
      if length signers < Required s then Inl TooFewSigners
      else if \<not> list_all (\<lambda>k. length redeemScripts \<le> length (get_or sigs k [])) signers then Inl Panicked
      else
      let scripts = map (\<lambda>i. Script_of (AddData (redeemScripts ! i)
            (foldl (\<lambda>b k. AddData (get_or sigs k [] ! i) b) (AddOp OP_0 NewScriptBuilder) signers)))
            [0..<length redeemScripts] in
      if list_all is_ok scripts
      then Inr (tx\<lparr>TxIn := map2 (\<lambda>ti r. case r of Inr sc \<Rightarrow> ti\<lparr>SignatureScript := sc\<rparr> | Inl e \<Rightarrow> ti) (TxIn tx) scripts\<rparr>)
      else Inl ScriptFailed)"

section \<open>The bridge's configuration and state\<close>

record bridge =
  signers :: signerSet
  depositConfirmations :: int
  confirmationTiers :: "confirmationTier list"
  vmFee :: int
  dogeFee :: int
  bumpAfter :: int
  fenceBumpAfter :: int
  minDeposit :: int
  minPegOut :: int
  maxDeposit :: int
  maxCirculating :: int
  confFloor :: int
  maxShallow :: int

record deposit =
  d_time :: int
  d_outPoint :: OutPoint
  d_value :: int
  d_dest :: destination
  d_valid :: bool
  d_hasDest :: bool
  d_confirmations :: int

record pegOut =
  p_time :: int
  p_txid :: bytes
  p_value :: int
  p_dest :: destination
  p_valid :: bool
  p_confirmations :: int

record lineage =
  l_script :: bytes
  rootDepth :: int
  spentBy :: "(OutPoint, chainTx) gomap"
  l_coins :: "utxo list"

record pegState =
  redeemFor :: "(bytes, bytes) gomap"
  depositDest :: "(bytes, destination) gomap"
  reserveCreated :: int
  reserveUnspent :: int
  reserveUTXOs :: "utxo list"
  vmPending :: bool
  reserveAnchor :: "utxo option"
  pegAnchor :: "utxo option"
  reserveLine :: lineage
  pegLine :: lineage
  released :: "(OutPoint, bytes) gomap"
  cancelled :: "(OutPoint, bool) gomap"
  pegOuts :: "pegOut list"
  deposits :: "deposit list"
  paid :: "(bytes, bytes) gomap"
  refunded :: "(OutPoint, bytes) gomap"
  pendingCoins :: "(OutPoint, utxo) gomap"
  vmUnconfirmed :: "(bytes, chainTx) gomap"
  unconfirmed :: "(bytes, chainTx) gomap"
  held :: "deposit list"
  settled :: "deposit list"
  locked :: int
  lockedUTXOs :: "utxo list"
  unclaimedOnDoge :: int
  unclaimedOnVM :: int
  contributed :: int
  contributions :: "utxo list"
  pendingRefunds :: int
  pendingFees :: int
  vmTxs :: "chainTx list"
  dogeTxs :: "chainTx list"
  dogeConflicted :: "chainTx list"

section \<open>The empty state\<close>

definition emptyLine :: lineage where
  "emptyLine = \<lparr>l_script = [], rootDepth = 0, spentBy = [], l_coins = []\<rparr>"

definition emptyState :: pegState where
  "emptyState = \<lparr>redeemFor = [], depositDest = [], reserveCreated = 0, reserveUnspent = 0, reserveUTXOs = [],
     vmPending = False, reserveAnchor = None, pegAnchor = None, reserveLine = emptyLine, pegLine = emptyLine,
     released = [], cancelled = [], pegOuts = [], deposits = [], paid = [], refunded = [], pendingCoins = [],
     vmUnconfirmed = [], unconfirmed = [], held = [], settled = [], locked = 0, lockedUTXOs = [],
     unclaimedOnDoge = 0, unclaimedOnVM = 0, contributed = 0, contributions = [], pendingRefunds = 0,
     pendingFees = 0, vmTxs = [], dogeTxs = [], dogeConflicted = []\<rparr>"

end
