(* ===== verification/Tiers.thy ===== *)
theory Tiers
  imports Peg
begin

text \<open>
  The bridge's policy: how many confirmations a deposit needs, how much may be
  credited before the full number, the fees of replacements (\<open>cmd/dogevm/tiers.go\<close>,
  \<open>bridge.go\<close>), and adopting the policy of the signer set (\<open>main.go\<close>).
\<close>

section \<open>Policy\<close>

definition minMainnetConfirmations :: int where "minMainnetConfirmations = 6"
definition pegDust :: int where "pegDust = 1000000"
definition maxBumpFees :: int where "maxBumpFees = 4"

fun firstTier :: "confirmationTier list \<Rightarrow> int \<Rightarrow> confirmationTier option" where
  "firstTier [] value = None"
| "firstTier (t # ts) value = (if value \<le> UpTo t then Some t else firstTier ts value)"

definition confirmationsFor :: "bridge \<Rightarrow> int \<Rightarrow> int" where
  "confirmationsFor b value =
     (let n = (case firstTier (confirmationTiers b) value of
                 None \<Rightarrow> depositConfirmations b | Some t \<Rightarrow> Confirmations t) in
      if n < confFloor b then confFloor b else n)"

definition shallowCap :: "bridge \<Rightarrow> int" where
  "shallowCap b = (if maxShallow b > 0 then maxShallow b
     else if confirmationTiers b \<noteq> [] then UpTo (last (confirmationTiers b)) else 0)"

definition shallowCredited :: "bridge \<Rightarrow> pegState \<Rightarrow> int" where
  "shallowCredited b s = foldl (\<lambda>total d.
     if has_key (released s) (d_outPoint d) \<and> d_confirmations d < depositConfirmations b
     then total + d_value d else total) 0 (deposits s)"

definition shallowRoom :: "bridge \<Rightarrow> pegState \<Rightarrow> deposit \<Rightarrow> int \<Rightarrow> perr + unit" where
  "shallowRoom b s d promised =
     (if d_confirmations d \<ge> depositConfirmations b then Inr ()
      else if shallowCredited b s + promised + d_value d > shallowCap b then Inl ShallowFull
      else Inr ())"

fun creditTiersLoop :: "int \<Rightarrow> confirmationTier list \<Rightarrow> confirmationTier list \<Rightarrow> confirmationTier list" where
  "creditTiersLoop floor [] out = out"
| "creditTiersLoop floor (t # ts) out =
     (let t = (if Confirmations t < floor then t\<lparr>Confirmations := floor\<rparr> else t) in
      if out \<noteq> [] \<and> Confirmations (last out) \<ge> Confirmations t
      then creditTiersLoop floor ts (butlast out @ [(last out)\<lparr>UpTo := UpTo t\<rparr>])
      else creditTiersLoop floor ts (out @ [t]))"

definition creditTiers :: "bridge \<Rightarrow> confirmationTier list" where
  "creditTiers b = creditTiersLoop (confFloor b) (confirmationTiers b) []"

definition refundable :: "bridge \<Rightarrow> deposit \<Rightarrow> perr + unit" where
  "refundable b d = guardr (d_confirmations d \<ge> confirmationsFor b (d_value d)) NotDeepEnough"

definition depositInRange :: "bridge \<Rightarrow> int \<Rightarrow> bool" where
  "depositInRange b value \<longleftrightarrow> value \<ge> minDeposit b \<and> (maxDeposit b = 0 \<or> value \<le> maxDeposit b)"

definition creditable :: "hashes \<Rightarrow> bridge \<Rightarrow> destination \<Rightarrow> int \<Rightarrow> bool" where
  "creditable H b dest value \<longleftrightarrow> depositInRange b value \<and> pkScript dest \<noteq> signers_pkScript H (signers b)"

definition checkBumpFee :: "bridge \<Rightarrow> int \<Rightarrow> int \<Rightarrow> int \<Rightarrow> perr + unit" where
  "checkBumpFee b fee oldFee value =
     (if fee \<le> oldFee then Inl FeeNotMore
      else if fee > maxBumpFees * dogeFee b then Inl FeeTooHigh
      else if fee > quot value 2 then Inl FeeOverHalf
      else Inr ())"

section \<open>Tiers as text\<close>

text \<open>\<open>strings.TrimSpace\<close> on ASCII text.\<close>

definition isSpace :: "char \<Rightarrow> bool" where
  "isSpace c \<longleftrightarrow> (let n = (of_char c :: nat) in n = 32 \<or> (9 \<le> n \<and> n \<le> 13))"

definition trimSpace :: "string \<Rightarrow> string" where
  "trimSpace s = rev (dropWhile isSpace (rev (dropWhile isSpace s)))"

definition trimRight :: "char \<Rightarrow> string \<Rightarrow> string" where
  "trimRight c s = rev (dropWhile (\<lambda>x. x = c) (rev s))"

fun parseTiersLoop :: "int \<Rightarrow> string list \<Rightarrow> confirmationTier list \<Rightarrow> perr + confirmationTier list" where
  "parseTiersLoop full [] tiers = Inr tiers"
| "parseTiersLoop full (part # parts) tiers =
     (case cut CHR '':'' (trimSpace part) of (amount, confs, found) \<Rightarrow>
      if \<not> found then Inl BadTier else
      (case parseDoge amount of Inl e \<Rightarrow> Inl BadTier | Inr upTo \<Rightarrow>
      (case parseInt64 confs of None \<Rightarrow> Inl BadTier | Some n \<Rightarrow>
      if n < 1 then Inl BadTier
      else if n > full then Inl TierTooDeep
      else if tiers \<noteq> [] \<and> (upTo \<le> UpTo (last tiers) \<or> n < Confirmations (last tiers)) then Inl TiersNotRising
      else parseTiersLoop full parts (tiers @ [\<lparr>UpTo = upTo, Confirmations = n\<rparr>]))))"

definition parseConfirmationTiers :: "string \<Rightarrow> int \<Rightarrow> perr + confirmationTier list" where
  "parseConfirmationTiers s full = (if trimSpace s = [] then Inr []
     else parseTiersLoop full (split_at CHR '','' s) [])"

definition formatTier :: "confirmationTier \<Rightarrow> string" where
  "formatTier t = trimRight CHR ''.'' (trimRight CHR ''0'' (formatDoge (UpTo t))) @ '':'' @ formatInt (Confirmations t)"

fun joinComma :: "string list \<Rightarrow> string" where
  "joinComma [] = []"
| "joinComma [p] = p"
| "joinComma (p # q # ps) = p @ CHR '','' # joinComma (q # ps)"

definition formatConfirmationTiers :: "confirmationTier list \<Rightarrow> string" where
  "formatConfirmationTiers tiers = joinComma (map formatTier tiers)"

section \<open>Adopting the signers' policy\<close>

text \<open>The flags given explicitly must agree; the policy is adopted either way.\<close>

definition agreedFlags :: "pegPolicy \<Rightarrow> bridge \<Rightarrow> (string \<times> bool) list" where
  "agreedFlags p b =
     [(''confirmations'', depositConfirmations b = pol_Confirmations p), (''vm-fee'', vmFee b = pol_VMFee p),
      (''doge-fee'', dogeFee b = pol_DogeFee p), (''min-deposit'', minDeposit b = pol_MinDeposit p),
      (''min-peg-out'', minPegOut b = pol_MinPegOut p), (''max-deposit'', maxDeposit b = pol_MaxDeposit p),
      (''max-circulating'', maxCirculating b = pol_MaxCirculating p),
      (''confirmation-tiers'', confirmationTiers b = pol_ConfirmationTiers p)]"

definition applyPolicy :: "string list \<Rightarrow> pegPolicy option \<Rightarrow> bridge \<Rightarrow> bridge \<times> (perr + unit)" where
  "applyPolicy given p b = (case p of None \<Rightarrow> (b, Inr ()) | Some p \<Rightarrow>
     (b\<lparr>depositConfirmations := pol_Confirmations p, vmFee := pol_VMFee p, dogeFee := pol_DogeFee p,
        minDeposit := pol_MinDeposit p, minPegOut := pol_MinPegOut p, maxDeposit := pol_MaxDeposit p,
        maxCirculating := pol_MaxCirculating p, confirmationTiers := pol_ConfirmationTiers p\<rparr>,
      guardr (list_all (\<lambda>(name, agrees). name \<in> set given \<longrightarrow> agrees) (agreedFlags p b)) PolicyDisagrees))"

section \<open>Rising tiers\<close>

definition rising :: "confirmationTier list \<Rightarrow> bool" where
  "rising ts \<longleftrightarrow> sorted_wrt (\<lambda>a b. UpTo a < UpTo b \<and> Confirmations a \<le> Confirmations b) ts"

definition raise_to :: "int \<Rightarrow> confirmationTier \<Rightarrow> confirmationTier" where
  "raise_to floor t = (if Confirmations t < floor then t\<lparr>Confirmations := floor\<rparr> else t)"

definition confOf :: "confirmationTier list \<Rightarrow> int \<Rightarrow> int option" where
  "confOf ts v = map_option Confirmations (firstTier ts v)"

lemma confOf_simps [simp]:
  "confOf [] v = None" "confOf (t # ts) v = (if v \<le> UpTo t then Some (Confirmations t) else confOf ts v)"
  by (simp_all add: confOf_def)

lemma confOf_append: "confOf (a @ c) v = (case confOf a v of None \<Rightarrow> confOf c v | Some n \<Rightarrow> Some n)"
  by (induction a) simp_all

lemma confirmationsFor_confOf:
  "confirmationsFor b v = max (confFloor b) (case confOf (confirmationTiers b) v of None \<Rightarrow> depositConfirmations b | Some n \<Rightarrow> n)"
  by (simp add: confirmationsFor_def confOf_def Let_def max_def split: option.split)

lemma raise_to_simps [simp]:
  "UpTo (raise_to f t) = UpTo t" "Confirmations (raise_to f t) = max f (Confirmations t)"
  by (simp_all add: raise_to_def)

lemma confOf_raise: "confOf (map (raise_to f) ts) v = map_option (max f) (confOf ts v)"
  by (induction ts) simp_all

lemma rising_snoc: "rising (ts @ [t]) \<longleftrightarrow> rising ts \<and> (\<forall>x \<in> set ts. UpTo x < UpTo t \<and> Confirmations x \<le> Confirmations t)"
  by (auto simp: rising_def sorted_wrt_append)

lemma rising_raise: "rising ts \<Longrightarrow> rising (map (raise_to f) ts)"
  by (auto simp: rising_def sorted_wrt_map intro: sorted_wrt_mono_rel [rotated])

text \<open>Folding a tier into the one before it, when both ask the same, changes no answer.\<close>

lemma confOf_fold:
  assumes "Confirmations a = Confirmations t" "UpTo a < UpTo t"
  shows "confOf (a\<lparr>UpTo := UpTo t\<rparr> # ts) v = confOf (a # t # ts) v"
  using assms by auto

lemma creditTiersLoop_confOf:
  "rising (out @ map (raise_to f) ts) \<Longrightarrow> confOf (creditTiersLoop f ts out) v = confOf (out @ map (raise_to f) ts) v"
proof (induction ts arbitrary: out)
  case (Cons t ts)
  let ?t = "raise_to f t" and ?r = "map (raise_to f) ts"
  have unf: "creditTiersLoop f (t # ts) out = (if out \<noteq> [] \<and> Confirmations (last out) \<ge> Confirmations ?t
      then creditTiersLoop f ts (butlast out @ [(last out)\<lparr>UpTo := UpTo ?t\<rparr>]) else creditTiersLoop f ts (out @ [?t]))"
    by (simp add: raise_to_def Let_def)
  show ?case
  proof (cases "out \<noteq> [] \<and> Confirmations (last out) \<ge> Confirmations ?t")
    case True
    obtain o' a where out: "out = o' @ [a]" using True by (metis append_butlast_last_id)
    have r: "rising (o' @ a # ?t # ?r)" using Cons.prems out by simp
    then have a: "Confirmations a = Confirmations ?t" "UpTo a < UpTo ?t"
      using True out by (auto simp: rising_def sorted_wrt_append)
    have "rising (o' @ a\<lparr>UpTo := UpTo ?t\<rparr> # ?r)"
      using r a(1) by (auto simp: rising_def sorted_wrt_append)
    then have "confOf (creditTiersLoop f ts (o' @ [a\<lparr>UpTo := UpTo ?t\<rparr>])) v = confOf (o' @ a\<lparr>UpTo := UpTo ?t\<rparr> # ?r) v"
      using Cons.IH by simp
    also have "\<dots> = confOf (o' @ a # ?t # ?r) v"
      using confOf_fold [OF a] by (simp add: confOf_append del: confOf_simps split: option.split)
    finally show ?thesis using True by (simp only: unf if_True) (simp add: out)
  next
    case False
    then show ?thesis using Cons.IH [of "out @ [?t]"] Cons.prems by (simp only: unf if_False) simp
  qed
qed simp

lemma confOf_mono:
  "rising ts \<Longrightarrow> v \<le> w \<Longrightarrow> confOf ts w = Some n \<Longrightarrow> \<exists>m. confOf ts v = Some m \<and> m \<le> n"
proof (induction ts)
  case (Cons t ts)
  show ?case
  proof (cases "w \<le> UpTo t")
    case False
    have t: "\<forall>x \<in> set ts. Confirmations t \<le> Confirmations x" "rising ts"
      using Cons.prems(1) by (auto simp: rising_def)
    have "confOf ts w = Some n" using False Cons.prems(3) by simp
    moreover have "n \<in> Confirmations ` set ts" if "confOf ts w = Some n" for ts
      using that by (induction ts) (auto split: if_splits)
    ultimately have "Confirmations t \<le> n" using t(1) by auto
    then show ?thesis using Cons.IH [OF t(2) Cons.prems(2) \<open>confOf ts w = Some n\<close>] by auto
  qed (use Cons.prems in auto)
qed simp

lemma confOf_bound: "confOf ts v = Some n \<Longrightarrow> list_all (\<lambda>t. Confirmations t \<le> full) ts \<Longrightarrow> n \<le> full"
  by (induction ts) (auto split: if_splits)

section \<open>Parsed tiers\<close>

lemma parseTiersLoop_ok:
  "parseTiersLoop full parts tiers = Inr ts \<Longrightarrow> rising tiers \<Longrightarrow>
   list_all (\<lambda>t. 1 \<le> Confirmations t \<and> Confirmations t \<le> full) tiers \<Longrightarrow>
   rising ts \<and> list_all (\<lambda>t. 1 \<le> Confirmations t \<and> Confirmations t \<le> full) ts"
proof (induction parts arbitrary: tiers)
  case (Cons part parts)
  from Cons.prems(1) obtain u n where
    n: "1 \<le> n" "n \<le> full" "tiers \<noteq> [] \<longrightarrow> UpTo (last tiers) < u \<and> Confirmations (last tiers) \<le> n"
    and rest: "parseTiersLoop full parts (tiers @ [\<lparr>UpTo = u, Confirmations = n\<rparr>]) = Inr ts"
    by (auto simp: not_less not_le split: prod.splits if_splits sum.splits option.splits)
  have "rising (tiers @ [\<lparr>UpTo = u, Confirmations = n\<rparr>])"
  proof (cases "tiers = []")
    case False
    then obtain o' a where t: "tiers = o' @ [a]" by (metis append_butlast_last_id)
    have "\<forall>x \<in> set o'. UpTo x < UpTo a \<and> Confirmations x \<le> Confirmations a"
      using Cons.prems(2) by (simp add: t rising_snoc)
    then have "UpTo x < u \<and> Confirmations x \<le> n" if "x \<in> set tiers" for x
      using that n(3) t by fastforce
    then show ?thesis unfolding rising_snoc using Cons.prems(2) by simp
  qed (simp add: rising_def)
  then show ?case using Cons.IH [OF rest] Cons.prems(3) n by simp
qed simp

lemma parseConfirmationTiers_ok:
  assumes "parseConfirmationTiers s full = Inr ts"
  shows "rising ts \<and> list_all (\<lambda>t. 1 \<le> Confirmations t \<and> Confirmations t \<le> full) ts"
  using assms parseTiersLoop_ok [of full _ "[]" ts]
  by (auto simp: parseConfirmationTiers_def rising_def split: if_splits)

section \<open>Tiers printed and parsed\<close>

lemma dropWhile_eq_zero: "\<exists>k. s = trimRight c s @ replicate k c"
proof -
  have "\<exists>k. xs = replicate k c @ dropWhile (\<lambda>x. x = c) xs" for xs :: string
  proof (induction xs)
    case (Cons x xs)
    then obtain k where k: "xs = replicate k c @ dropWhile (\<lambda>x. x = c) xs" ..
    then show ?case
    proof (cases "x = c")
      case True
      then show ?thesis using k by (intro exI [of _ "Suc k"]) simp
    next
      case False
      then show ?thesis by (intro exI [of _ 0]) simp
    qed
  qed simp
  then obtain k where "rev s = replicate k c @ dropWhile (\<lambda>x. x = c) (rev s)" by blast
  then have "s = rev (replicate k c @ dropWhile (\<lambda>x. x = c) (rev s))" by (metis rev_rev_ident)
  then show ?thesis by (auto simp: trimRight_def)
qed

lemma trimRight_last: "trimRight c (s @ [x]) = (if x = c then trimRight c s else s @ [x])"
  by (simp add: trimRight_def)

lemma trimRight_Nil [simp]: "trimRight c [] = []"
  by (simp add: trimRight_def)

lemma trimRight_append: "trimRight c (a @ b) = (if trimRight c b = [] then trimRight c a else a @ trimRight c b)"
  by (induction b rule: rev_induct) (simp_all add: trimRight_last flip: append_assoc)

lemma digit_ne: "n < 10 \<Longrightarrow> digit n \<noteq> CHR ''.''"
  using of_char_digit [of n] by auto

lemma formatUint_last: "trimRight CHR ''.'' (formatUint n) = formatUint n"
proof (subst (1 2) formatUint.simps)
  show "trimRight CHR ''.'' (if n < 10 then [digit n] else formatUint (n div 10) @ [digit (n mod 10)])
      = (if n < 10 then [digit n] else formatUint (n div 10) @ [digit (n mod 10)])"
    using trimRight_last [of "CHR ''.''" "[]" "digit n"] by (simp add: trimRight_last digit_ne)
qed

lemma digitsVal_chars: "digitsVal a s = Some v \<Longrightarrow> c \<in> set s \<Longrightarrow> undigit c \<noteq> None"
  by (induction s arbitrary: a) (auto split: option.splits)

lemma trim_digits: "digitsVal a s = Some v \<Longrightarrow> trimRight CHR ''.'' s = s"
proof (induction s rule: rev_induct)
  case (snoc x s)
  then have "undigit x \<noteq> None" using digitsVal_chars [of a "s @ [x]" v x] by simp
  then show ?case by (auto simp: trimRight_last)
qed simp

text \<open>An amount with the trailing zeros of its fraction, and a lone dot, cut off.\<close>

lemma parse_trimmed:
  assumes "0 \<le> k" "k < 10000000001 * koinuPerDoge"
  shows "parseDoge (trimRight CHR ''.'' (trimRight CHR ''0'' (formatDoge k))) = Inr k"
proof -
  let ?w = "nat (k div koinuPerDoge)" and ?f = "k mod koinuPerDoge"
  let ?t = "trimRight CHR ''0'' (pad08 ?f)"
  have pos: "0 < koinuPerDoge" by (rule koinuPerDoge_pos)
  have d: "0 \<le> k div koinuPerDoge" "?w \<le> 10000000000"
    using assms pos by (simp_all add: pos_imp_zdiv_nonneg_iff koinuPerDoge_def)
  have f: "0 \<le> ?f" "?f < koinuPerDoge" using pos by simp_all
  have whole: "int ?w * koinuPerDoge + ?f = k" using d(1) by simp
  obtain z where z: "pad08 ?f = ?t @ replicate z CHR ''0''" using dropWhile_eq_zero by blast
  have v: "digitsVal 0 (?t @ replicate z CHR ''0'') = Some (nat ?f)"
    using pad08_val [OF f(1)] z by simp
  then obtain g where g: "digitsVal 0 ?t = Some g" by (auto simp: digitsVal_append split: option.splits)
  with v have gz: "g * 10 ^ z = nat ?f" using digitsVal_zeros [of g z "[]"] by (simp add: digitsVal_append)
  have len: "length ?t + z = 8" using arg_cong [OF z, of length] pad08_length [OF f] by simp
  have amount: "formatDoge k = formatUint ?w @ ''.'' @ pad08 ?f" by (rule formatDoge_nonneg [OF assms(1)])
  show ?thesis
  proof (cases "?t = []")
    case True
    then have "?f = 0" using g gz f(1) by simp
    moreover have "trimRight CHR ''0'' (formatDoge k) = formatUint ?w @ ''.''"
      using trimRight_append [of "CHR ''0''" "formatUint ?w @ ''.''" "pad08 ?f"] True
        trimRight_last [of "CHR ''0''" "formatUint ?w" "CHR ''.''"] by (simp add: amount)
    moreover have "trimRight CHR ''.'' (formatUint ?w @ ''.'') = formatUint ?w"
      using formatUint_last by (simp add: trimRight_last)
    ultimately show ?thesis
      using parseDoge_text(2) [of "formatUint ?w" ?w "[]" 0] d(2) whole by simp
  next
    case False
    then have "trimRight CHR ''0'' (formatDoge k) = formatUint ?w @ ''.'' @ ?t"
      using trimRight_append [of "CHR ''0''" "formatUint ?w @ ''.''" "pad08 ?f"] by (simp add: amount)
    moreover have "trimRight CHR ''.'' (formatUint ?w @ ''.'' @ ?t) = formatUint ?w @ ''.'' @ ?t"
      using trimRight_append [of "CHR ''.''" "formatUint ?w @ ''.''" ?t] False trim_digits [OF g] by simp
    moreover have "int g * 10 ^ z = ?f" using gz f(1) by (metis int_nat_eq of_nat_mult of_nat_numeral of_nat_power)
    moreover have "parseDoge (formatUint ?w @ ''.'' @ ?t) = Inr (int ?w * koinuPerDoge + int g * 10 ^ (8 - length ?t))"
      by (rule parseDoge_text(1)) (use d(2) g len in auto)
    moreover have "8 - length ?t = z" using len by simp
    ultimately show ?thesis using whole by simp
  qed
qed

lemma trimSpace_id: "list_all (\<lambda>c. \<not> isSpace c) s \<Longrightarrow> trimSpace s = s"
proof -
  assume a: "list_all (\<lambda>c. \<not> isSpace c) s"
  then have "dropWhile isSpace s = s" by (cases s) simp_all
  moreover have "dropWhile isSpace (rev s) = rev s" using a by (cases s rule: rev_cases) simp_all
  ultimately show ?thesis by (simp add: trimSpace_def)
qed



definition plain :: "char \<Rightarrow> bool" where
  "plain c \<longleftrightarrow> undigit c \<noteq> None \<or> c = CHR ''.''"

lemma plain_char: "plain c \<Longrightarrow> \<not> isSpace c \<and> c \<noteq> CHR '':'' \<and> c \<noteq> CHR '',''"
  by (auto simp: plain_def isSpace_def undigit_def Let_def split: if_splits)

lemma plain_digits: "digitsVal a s = Some v \<Longrightarrow> c \<in> set s \<Longrightarrow> plain c"
  using digitsVal_chars by (simp add: plain_def)

lemma set_trimRight: "set (trimRight c s) \<subseteq> set s"
  by (auto simp: trimRight_def dest: set_dropWhileD)

lemma plain_formatDoge: "0 \<le> k \<Longrightarrow> c \<in> set (formatDoge k) \<Longrightarrow> plain c"
proof -
  assume k: "0 \<le> k" and c: "c \<in> set (formatDoge k)"
  have "0 \<le> k mod koinuPerDoge" using koinuPerDoge_pos by simp
  then show "plain c"
    using c plain_digits [OF digitsVal_formatUint, of c] plain_digits [OF pad08_val, of "k mod koinuPerDoge" c]
    by (auto simp: formatDoge_nonneg [OF k] plain_def)
qed

definition good_tier :: "int \<Rightarrow> confirmationTier \<Rightarrow> bool" where
  "good_tier full t \<longleftrightarrow> 0 \<le> UpTo t \<and> UpTo t < 10000000001 * koinuPerDoge \<and> 1 \<le> Confirmations t
     \<and> Confirmations t \<le> full \<and> Confirmations t < 2 ^ 63"

lemma parse_formatTier:
  assumes "good_tier full t"
  shows "cut CHR '':'' (trimSpace (formatTier t)) = (trimRight CHR ''.'' (trimRight CHR ''0'' (formatDoge (UpTo t))), formatUint (nat (Confirmations t)), True)"
    and "CHR '','' \<notin> set (formatTier t)" and "parseInt64 (formatUint (nat (Confirmations t))) = Some (Confirmations t)"
proof -
  let ?a = "trimRight CHR ''.'' (trimRight CHR ''0'' (formatDoge (UpTo t)))" and ?n = "formatUint (nat (Confirmations t))"
  have f: "formatTier t = ?a @ CHR '':'' # ?n"
    using assms by (simp add: formatTier_def formatInt_def good_tier_def)
  have a: "\<And>c. c \<in> set ?a \<Longrightarrow> plain c"
    using assms plain_formatDoge [of "UpTo t"] subsetD [OF set_trimRight] by (metis good_tier_def)
  have n: "\<And>c. c \<in> set ?n \<Longrightarrow> plain c" using plain_digits [OF digitsVal_formatUint] .
  have "list_all (\<lambda>c. \<not> isSpace c) (formatTier t)"
    using a n plain_char by (auto simp: f list_all_iff isSpace_def)
  then show "cut CHR '':'' (trimSpace (formatTier t)) = (?a, ?n, True)"
    using cut_append [of "CHR '':''" ?a ?n] a plain_char by (metis f trimSpace_id)
  show "CHR '','' \<notin> set (formatTier t)" using a n plain_char by (auto simp: f)
  obtain c cs where c: "?n = c # cs" by (cases ?n) auto
  then have "plain c" using n by simp
  moreover have "c \<noteq> CHR ''.''" using sep_notin_formatUint [of "CHR ''.''" "nat (Confirmations t)"] c by auto
  ultimately have "c \<noteq> CHR ''-''" "c \<noteq> CHR ''+''" by (auto simp: plain_def undigit_def)
  moreover have "digitsVal 0 (c # cs) = Some (nat (Confirmations t))" using c by (metis digitsVal_formatUint)
  ultimately show "parseInt64 ?n = Some (Confirmations t)"
    using assms unfolding c by (simp add: parseInt64_def good_tier_def nat_less_iff del: digitsVal.simps)
qed

lemma parseTiersLoop_format:
  "list_all (good_tier full) ts \<Longrightarrow> rising (acc @ ts) \<Longrightarrow> parseTiersLoop full (map formatTier ts) acc = Inr (acc @ ts)"
proof (induction ts arbitrary: acc)
  case (Cons t ts)
  have g: "good_tier full t" using Cons.prems(1) by simp
  note p = parse_formatTier [OF g]
  have u: "parseDoge (trimRight CHR ''.'' (trimRight CHR ''0'' (formatDoge (UpTo t)))) = Inr (UpTo t)"
    using parse_trimmed g by (simp add: good_tier_def)
  have l: "acc \<noteq> [] \<Longrightarrow> UpTo (last acc) < UpTo t \<and> Confirmations (last acc) \<le> Confirmations t"
    using Cons.prems(2) by (auto simp: rising_def sorted_wrt_append)
  have "parseTiersLoop full (map formatTier ts) (acc @ [t]) = Inr ((acc @ [t]) @ ts)"
    using Cons by simp
  then have "parseTiersLoop full (map formatTier ts) (acc @ [\<lparr>UpTo = UpTo t, Confirmations = Confirmations t\<rparr>]) = Inr (acc @ t # ts)"
    by (cases t) simp
  then show ?case using p(1,3) u l g by (auto simp: good_tier_def)
qed simp

lemma split_joinComma: "ps \<noteq> [] \<Longrightarrow> list_all (\<lambda>p. CHR '','' \<notin> set p) ps \<Longrightarrow> split_at CHR '','' (joinComma ps) = ps"
  by (induction ps rule: joinComma.induct) simp_all

lemma formatTier_not_blank: "good_tier full t \<Longrightarrow> trimSpace (formatTier t) \<noteq> []"
  using parse_formatTier(1) [of full t] by (cases "trimSpace (formatTier t)") auto

section \<open>Properties\<close>

text \<open>Tiers that rise are read back from the text of the flag that sets them.\<close>

theorem tiers_text_roundtrip:
  assumes "rising ts" "list_all (good_tier full) ts"
  shows "parseConfirmationTiers (formatConfirmationTiers ts) full = Inr ts"
proof (cases ts)
  case (Cons t ts')
  have "joinComma (map formatTier ts) \<noteq> [] \<and> trimSpace (joinComma (map formatTier ts)) \<noteq> []"
  proof -
    have g: "good_tier full t" using assms(2) Cons by simp
    have "\<exists>c \<in> set (formatTier t). \<not> isSpace c"
      by (auto simp: formatTier_def isSpace_def intro!: bexI [of _ "CHR '':''"])
    then obtain c where c: "c \<in> set (joinComma (map formatTier ts))" "\<not> isSpace c"
      by (cases ts') (auto simp: Cons)
    have "c \<in> set (trimSpace s)" if "c \<in> set s" for s
    proof -
      have "c \<in> set (dropWhile isSpace xs)" if "c \<in> set xs" for xs
        using that c(2) by (induction xs) auto
      then show ?thesis using that by (simp add: trimSpace_def)
    qed
    then show ?thesis using c(1) by fastforce
  qed
  moreover have "split_at CHR '','' (joinComma (map formatTier ts)) = map formatTier ts"
    using assms(2) parse_formatTier(2) by (intro split_joinComma) (auto simp: Cons list_all_iff)
  ultimately show ?thesis
    using parseTiersLoop_format [OF assms(2), of "[]"] assms(1)
    by (simp add: parseConfirmationTiers_def formatConfirmationTiers_def)
qed (simp add: parseConfirmationTiers_def formatConfirmationTiers_def trimSpace_def)

definition sampleTiers :: "confirmationTier list" where
  "sampleTiers = [\<lparr>UpTo = 100000000, Confirmations = 1\<rparr>, \<lparr>UpTo = 1050000000, Confirmations = 6\<rparr>, \<lparr>UpTo = 5000000000, Confirmations = 12\<rparr>]"

theorem tiers_text_roundtrip_witness:
  "parseConfirmationTiers (formatConfirmationTiers sampleTiers) 60 = Inr sampleTiers
   \<and> formatConfirmationTiers sampleTiers = ''1:1,10.5:6,50:12''"
proof -
  have "formatConfirmationTiers sampleTiers = ''1:1,10.5:6,50:12''" by code_simp
  moreover have "rising sampleTiers" "list_all (good_tier 60) sampleTiers"
    by (simp_all add: rising_def sampleTiers_def good_tier_def koinuPerDoge_def)
  ultimately show ?thesis using tiers_text_roundtrip [of sampleTiers 60] by simp
qed


definition sampleSigners :: signerSet where
  "sampleSigners = \<lparr>Required = 2, pubKeys = [[2], [3], [4]], redeemScript = [0x52, 1, 2, 1, 3, 1, 4, 0x53, 0xae]\<rparr>"

definition sampleBridge :: bridge where
  "sampleBridge = \<lparr>signers = sampleSigners, depositConfirmations = 20, confirmationTiers = sampleTiers, vmFee = 1000000,
     dogeFee = 100000000, bumpAfter = 1800, fenceBumpAfter = 1800, minDeposit = 100000000, minPegOut = 200000000,
     maxDeposit = 0, maxCirculating = 0, confFloor = 6, maxShallow = 0\<rparr>"


text \<open>With tiers the parser accepts, no deposit is credited below the floor, and a larger
  deposit never needs fewer confirmations than a smaller one, nor more than the full number
  or the floor.\<close>

theorem confirmations_monotone:
  assumes "parseConfirmationTiers flag (depositConfirmations b) = Inr (confirmationTiers b)" "v \<le> w"
  shows "confFloor b \<le> confirmationsFor b v \<and> confirmationsFor b v \<le> confirmationsFor b w
    \<and> confirmationsFor b w \<le> max (confFloor b) (depositConfirmations b)"
proof -
  note p = parseConfirmationTiers_ok [OF assms(1)]
  have full: "list_all (\<lambda>t. Confirmations t \<le> depositConfirmations b) (confirmationTiers b)"
    using p by (simp add: list_all_iff)
  let ?c = "confOf (confirmationTiers b)"
  have bound: "?c x = Some n \<Longrightarrow> n \<le> depositConfirmations b" for x n using confOf_bound [OF _ full] .
  have "?c w = Some n \<Longrightarrow> \<exists>m. ?c v = Some m \<and> m \<le> n" for n using confOf_mono p assms(2) by blast
  then show ?thesis using bound [of v] bound [of w]
    by (cases "?c v"; cases "?c w") (auto simp: confirmationsFor_confOf)
qed

theorem confirmations_monotone_witness:
  "confirmationsFor sampleBridge 100000000 = 6 \<and> confirmationsFor sampleBridge 100000000 \<le> confirmationsFor sampleBridge 4000000000"
proof -
  have "parseConfirmationTiers ''1:1,10.5:6,50:12'' (depositConfirmations sampleBridge) = Inr (confirmationTiers sampleBridge)"
    by code_simp
  from confirmations_monotone [OF this, of 100000000 4000000000]
  show ?thesis by (simp add: confirmationsFor_def sampleBridge_def sampleTiers_def)
qed

end
