(* ===== verification/Lineage.thy ===== *)
theory Lineage
  imports Tiers "HOL-Library.Multiset"
begin

text \<open>
  The anchor lineage, \<open>cmd/dogevm/lineage.go\<close>: the line of coins every transaction of
  the signers spends the tip of, read from a chain's history.
\<close>

section \<open>Coins\<close>

definition outPointLess :: "OutPoint \<Rightarrow> OutPoint \<Rightarrow> bool" where
  "outPointLess a b = (if Hash a \<noteq> Hash b then Hash a < Hash b else Index a < Index b)"

definition older :: "utxo \<Rightarrow> utxo \<Rightarrow> bool" where
  "older u best \<longleftrightarrow> u_confirmations u > u_confirmations best \<or>
     (u_confirmations u = u_confirmations best \<and> outPointLess (u_outPoint u) (u_outPoint best))"

definition oldestCoin :: "utxo list \<Rightarrow> utxo option" where
  "oldestCoin coins = foldl (\<lambda>best u. case best of None \<Rightarrow> Some u | Some c \<Rightarrow> if older u c then Some u else best) None coins"

definition containsOutPoint :: "utxo list \<Rightarrow> OutPoint \<Rightarrow> bool" where
  "containsOutPoint coins op = list_ex (\<lambda>u. u_outPoint u = op) coins"

text \<open>The outputs of a transaction with their outpoints, the index taken as a uint32.\<close>

definition outputs :: "hashes \<Rightarrow> MsgTx \<Rightarrow> (OutPoint \<times> TxOut) list" where
  "outputs H tx = map (\<lambda>i. (\<lparr>Hash = TxHash H tx, Index = word_of_nat i\<rparr>, TxOut tx ! i)) [0..<length (TxOut tx)]"

section \<open>The line\<close>

definition coinsAt :: "hashes \<Rightarrow> bytes \<Rightarrow> chainTx \<Rightarrow> utxo list" where
  "coinsAt H scr t = map (\<lambda>(op, out). \<lparr>u_outPoint = op, u_value = Value out, u_pkScript = PkScript out,
       u_confirmations = t_confirmations t\<rparr>) (filter (\<lambda>(op, out). PkScript out = scr) (outputs H (t_tx t)))"

definition newLineage :: "hashes \<Rightarrow> chainTx list \<Rightarrow> bytes \<Rightarrow> int \<Rightarrow> lineage" where
  "newLineage H txs scr depth = foldl (\<lambda>l t.
     if t_confirmations t \<le> 0 then l
     else l\<lparr>spentBy := foldl (\<lambda>m ti. store m (PreviousOutPoint ti) t) (spentBy l) (TxIn (t_tx t)),
            l_coins := l_coins l @ coinsAt H scr t\<rparr>)
     \<lparr>l_script = scr, rootDepth = depth, spentBy = [], l_coins = []\<rparr> txs"

definition root :: "lineage \<Rightarrow> int \<Rightarrow> utxo option" where
  "root l before =
     (let deep = filter (\<lambda>u. \<not> (u_confirmations u < rootDepth l \<or> (before > 0 \<and> u_confirmations u \<ge> before))) (l_coins l);
          spent = filter (\<lambda>u. has_key (spentBy l) (u_outPoint u)) deep;
          free = filter (\<lambda>u. \<not> has_key (spentBy l) (u_outPoint u)) deep in
      if spent \<noteq> [] then oldestCoin spent else oldestCoin free)"

definition lastPaying :: "bytes \<Rightarrow> MsgTx \<Rightarrow> nat option" where
  "lastPaying scr tx = List.find (\<lambda>i. PkScript (TxOut tx ! i) = scr) (rev [0..<length (TxOut tx)])"

definition line_next :: "hashes \<Rightarrow> lineage \<Rightarrow> OutPoint \<Rightarrow> perr + OutPoint \<times> bool" where
  "line_next H l cur = (case lookup (spentBy l) cur of
     None \<Rightarrow> Inr (cur, False)
   | Some t \<Rightarrow> (case lastPaying (l_script l) (t_tx t) of
       Some i \<Rightarrow> Inr (\<lparr>Hash = TxHash H (t_tx t), Index = word_of_nat i\<rparr>, True)
     | None \<Rightarrow> Inl LineEnded))"

definition line_step :: "hashes \<Rightarrow> lineage \<Rightarrow> OutPoint \<Rightarrow> perr + OutPoint \<times> bool" where
  "line_step H l cur = (case line_next H l cur of
     Inr r \<Rightarrow> Inr r
   | Inl e \<Rightarrow> (case lookup (spentBy l) cur of
       None \<Rightarrow> Inl e
     | Some t \<Rightarrow> (case root l (t_confirmations t) of
         Some r \<Rightarrow> Inr (u_outPoint r, True)
       | None \<Rightarrow> Inl NoLaterRoot)))"

fun tipLoop :: "hashes \<Rightarrow> lineage \<Rightarrow> nat \<Rightarrow> OutPoint \<Rightarrow> bool \<Rightarrow> perr + OutPoint \<times> bool" where
  "tipLoop H l 0 cur moved = Inl LineTooLong"
| "tipLoop H l (Suc n) cur moved = (case line_step H l cur of
     Inl e \<Rightarrow> Inl e
   | Inr (next, again) \<Rightarrow> if \<not> again then Inr (cur, moved) else tipLoop H l n next True)"

text \<open>\<open>Inr None\<close>: there is no root yet.  Otherwise the tip, the root and whether the line has moved.\<close>

definition tip :: "hashes \<Rightarrow> lineage \<Rightarrow> perr + (OutPoint \<times> OutPoint \<times> bool) option" where
  "tip H l = (case root l 0 of
     None \<Rightarrow> Inr None
   | Some r \<Rightarrow> (case tipLoop H l (length (l_coins l) + 1) (u_outPoint r) False of
       Inl e \<Rightarrow> Inl e
     | Inr (cur, moved) \<Rightarrow> Inr (Some (cur, u_outPoint r, moved))))"

definition anchorIn :: "hashes \<Rightarrow> lineage \<Rightarrow> utxo list \<Rightarrow> utxo option" where
  "anchorIn H l coins = (case tip H l of
     Inr (Some (t, r, m)) \<Rightarrow> List.find (\<lambda>u. u_outPoint u = t) coins
   | _ \<Rightarrow> None)"

section \<open>Histories\<close>

definition confirmed_in :: "chainTx list \<Rightarrow> chainTx list" where
  "confirmed_in txs = filter (\<lambda>t. t_confirmations t > 0) txs"

definition spends :: "chainTx \<Rightarrow> OutPoint \<Rightarrow> bool" where
  "spends t op \<longleftrightarrow> op \<in> PreviousOutPoint ` set (TxIn (t_tx t))"

text \<open>
  What a chain guarantees of its confirmed transactions: distinct identifiers, outputs
  that fit an index, and no output spent twice.
\<close>

definition consistent :: "hashes \<Rightarrow> chainTx list \<Rightarrow> bool" where
  "consistent H txs \<longleftrightarrow> distinct (map (TxHash H \<circ> t_tx) (confirmed_in txs))
     \<and> list_all (\<lambda>t. length (TxOut (t_tx t)) < 2 ^ 32) (confirmed_in txs)
     \<and> list_all (\<lambda>t. list_all (\<lambda>t'. t = t' \<or> (list_all (\<lambda>ti. \<not> spends t' (PreviousOutPoint ti)) (TxIn (t_tx t))))
          (confirmed_in txs)) (confirmed_in txs)"

text \<open>
  Confirmed transactions in the order of the chain: deeper ones first, and each spends
  only outputs of earlier ones.
\<close>

definition ordered :: "hashes \<Rightarrow> chainTx list \<Rightarrow> bool" where
  "ordered H ts \<longleftrightarrow> list_all (\<lambda>t. t_confirmations t > 0) ts
     \<and> (\<forall>j < length ts. \<forall>i < length ts.
          (i < j \<longrightarrow> t_confirmations (ts ! j) \<le> t_confirmations (ts ! i)) \<and>
          (j \<le> i \<longrightarrow> list_all (\<lambda>ti. Hash (PreviousOutPoint ti) \<noteq> TxHash H (t_tx (ts ! i))) (TxIn (t_tx (ts ! j)))))"

section \<open>The oldest coin\<close>

lemma OutPoint_eqI: "Hash a = Hash b \<Longrightarrow> Index a = Index b \<Longrightarrow> a = (b :: OutPoint)"
  by simp

lemma outPointLess_irrefl [simp]: "\<not> outPointLess a a"
  by (simp add: outPointLess_def)

lemma outPointLess_trans: "outPointLess a b \<Longrightarrow> outPointLess b c \<Longrightarrow> outPointLess a c"
  by (auto simp: outPointLess_def split: if_splits)

lemma outPointLess_total: "a = b \<or> outPointLess a b \<or> outPointLess b a"
  by (cases "Hash a = Hash b") (auto simp: outPointLess_def intro: OutPoint_eqI)

lemma older_irrefl [simp]: "\<not> older u u"
  by (simp add: older_def)

lemma older_trans: "older a b \<Longrightarrow> older b c \<Longrightarrow> older a c"
  by (auto simp: older_def intro: outPointLess_trans)

lemma older_total: "u_outPoint a \<noteq> u_outPoint b \<Longrightarrow> older a b \<or> older b a"
  using outPointLess_total [of "u_outPoint a" "u_outPoint b"] by (auto simp: older_def)

lemma older_same: "\<not> older a b \<Longrightarrow> \<not> older b a \<Longrightarrow> older x a \<longleftrightarrow> older x b"
  using outPointLess_total [of "u_outPoint a" "u_outPoint b"]
  by (auto simp: older_def)

lemma oldest_loop:
  "foldl (\<lambda>best u. case best of None \<Rightarrow> Some u | Some c \<Rightarrow> if older u c then Some u else best) (Some c) xs = Some m \<Longrightarrow>
   m \<in> insert c (set xs) \<and> (\<forall>x \<in> insert c (set xs). \<not> older x m)"
proof (induction xs arbitrary: c)
  case (Cons x xs)
  show ?case
  proof (cases "older x c")
    case True
    have IH: "m \<in> insert x (set xs) \<and> (\<forall>y \<in> insert x (set xs). \<not> older y m)"
      by (rule Cons.IH) (use Cons.prems True in simp)
    then have "\<not> older c m" using older_trans [OF True] by blast
    with IH show ?thesis by auto
  next
    case False
    have IH: "m \<in> insert c (set xs) \<and> (\<forall>y \<in> insert c (set xs). \<not> older y m)"
      by (rule Cons.IH) (use Cons.prems False in simp)
    have "\<not> older x m"
      using IH False older_trans [of x m c] older_same [of m c x] by blast
    with IH show ?thesis by auto
  qed
qed simp

lemma oldestCoin_None [simp]: "oldestCoin xs = None \<longleftrightarrow> xs = []"
proof (cases xs)
  case (Cons x ys)
  have "foldl (\<lambda>best u. case best of None \<Rightarrow> Some u | Some c \<Rightarrow> if older u c then Some u else best) (Some c) ys \<noteq> None" for c ys
    by (induction ys arbitrary: c) simp_all
  then show ?thesis by (simp add: oldestCoin_def Cons)
qed (simp add: oldestCoin_def)

lemma oldestCoin_Some: "oldestCoin xs = Some m \<Longrightarrow> m \<in> set xs \<and> (\<forall>x \<in> set xs. \<not> older x m)"
  using oldest_loop [of "hd xs" "tl xs" m] by (cases xs) (simp_all add: oldestCoin_def)

lemma oldestCoin_cong:
  assumes "set xs = set ys" "inj_on u_outPoint (set xs)"
  shows "oldestCoin xs = oldestCoin ys"
proof (cases "oldestCoin xs")
  case None
  then show ?thesis using assms(1) by (metis oldestCoin_None set_empty)
next
  case (Some m)
  then obtain n where n: "oldestCoin ys = Some n" using assms(1)
    by (metis oldestCoin_None option.exhaust set_empty)
  from oldestCoin_Some [OF Some] oldestCoin_Some [OF n] assms(1)
  have "m \<in> set xs" "n \<in> set xs" "\<not> older m n" "\<not> older n m" by auto
  then show ?thesis using older_total [of m n] inj_onD [OF assms(2), of m n] Some n by auto
qed

section \<open>What a lineage holds\<close>

lemma lookup_foldl_store:
  "lookup (foldl (\<lambda>m ti. store m (f ti) v) m xs) k = (if k \<in> f ` set xs then Some v else lookup m k)"
  by (induction xs arbitrary: m) auto

lemma newLineage_snoc: "newLineage H (txs @ [t]) scr d = (let l = newLineage H txs scr d in
    if t_confirmations t \<le> 0 then l
    else l\<lparr>spentBy := foldl (\<lambda>m ti. store m (PreviousOutPoint ti) t) (spentBy l) (TxIn (t_tx t)),
           l_coins := l_coins l @ coinsAt H scr t\<rparr>)"
  by (simp add: newLineage_def Let_def)

lemma newLineage_script [simp]: "l_script (newLineage H txs scr d) = scr" "rootDepth (newLineage H txs scr d) = d"
  by (induction txs rule: rev_induct) (simp_all add: newLineage_snoc Let_def, simp_all add: newLineage_def)

lemma newLineage_coins: "l_coins (newLineage H txs scr d) = concat (map (coinsAt H scr) (confirmed_in txs))"
proof (induction txs rule: rev_induct)
  case Nil then show ?case by (simp add: newLineage_def confirmed_in_def)
next
  case (snoc t txs)
  then show ?case by (auto simp: newLineage_snoc confirmed_in_def Let_def)
qed

lemma newLineage_unspent: "lookup (spentBy (newLineage H txs scr d)) op = None \<longleftrightarrow> (\<forall>t \<in> set (confirmed_in txs). \<not> spends t op)"
proof (induction txs rule: rev_induct)
  case Nil then show ?case by (simp add: newLineage_def confirmed_in_def)
next
  case (snoc t txs)
  then show ?case by (auto simp: newLineage_snoc confirmed_in_def Let_def lookup_foldl_store spends_def)
qed

lemma newLineage_spentD: "lookup (spentBy (newLineage H txs scr d)) op = Some t \<Longrightarrow> t \<in> set (confirmed_in txs) \<and> spends t op"
proof (induction txs rule: rev_induct)
  case Nil then show ?case by (simp add: newLineage_def confirmed_in_def)
next
  case (snoc u txs)
  then show ?case by (auto simp: newLineage_snoc confirmed_in_def Let_def lookup_foldl_store spends_def split: if_splits)
qed

lemma consistent_spender:
  assumes "consistent H txs" "t \<in> set (confirmed_in txs)" "t' \<in> set (confirmed_in txs)" "spends t op" "spends t' op"
  shows "t = t'"
proof -
  have "t = t' \<or> list_all (\<lambda>ti. \<not> spends t' (PreviousOutPoint ti)) (TxIn (t_tx t))"
    using assms(1-3) by (simp add: consistent_def list_all_iff)
  then show ?thesis using assms(4,5) unfolding spends_def [of t] list_all_iff by blast
qed

lemma newLineage_spent_iff:
  assumes "consistent H txs"
  shows "lookup (spentBy (newLineage H txs scr d)) op = Some t \<longleftrightarrow> t \<in> set (confirmed_in txs) \<and> spends t op"
proof
  assume r: "t \<in> set (confirmed_in txs) \<and> spends t op"
  then obtain t' where "lookup (spentBy (newLineage H txs scr d)) op = Some t'"
    using newLineage_unspent [of H txs scr d op] by (metis option.exhaust)
  with r consistent_spender [OF assms _ _ _] newLineage_spentD [OF this]
  show "lookup (spentBy (newLineage H txs scr d)) op = Some t" by blast
qed (rule newLineage_spentD)

lemma outputs_set: "(op, out) \<in> set (outputs H tx) \<longleftrightarrow>
    (\<exists>i < length (TxOut tx). op = \<lparr>Hash = TxHash H tx, Index = word_of_nat i\<rparr> \<and> out = TxOut tx ! i)"
  by (auto simp: outputs_def)

lemma coinsAt_set: "u \<in> set (coinsAt H scr t) \<Longrightarrow>
    \<exists>i < length (TxOut (t_tx t)). u = \<lparr>u_outPoint = \<lparr>Hash = TxHash H (t_tx t), Index = word_of_nat i\<rparr>,
      u_value = Value (TxOut (t_tx t) ! i), u_pkScript = scr, u_confirmations = t_confirmations t\<rparr>
      \<and> PkScript (TxOut (t_tx t) ! i) = scr"
  by (auto simp: coinsAt_def outputs_set)

lemma unat_of_nat_32: "i < 2 ^ 32 \<Longrightarrow> unat (word_of_nat i :: 32 word) = i"
  by (simp add: unat_of_nat)

lemma word_of_nat_32_inj: "i < 2 ^ 32 \<Longrightarrow> j < 2 ^ 32 \<Longrightarrow> (word_of_nat i :: 32 word) = word_of_nat j \<Longrightarrow> i = j"
  by (metis unat_of_nat_32)

lemma newLineage_inj:
  assumes "consistent H txs"
  shows "inj_on u_outPoint (set (l_coins (newLineage H txs scr d)))"
proof (rule inj_onI)
  fix u v
  assume "u \<in> set (l_coins (newLineage H txs scr d))" "v \<in> set (l_coins (newLineage H txs scr d))" and e: "u_outPoint u = u_outPoint v"
  then obtain t t' where t: "t \<in> set (confirmed_in txs)" "u \<in> set (coinsAt H scr t)"
      "t' \<in> set (confirmed_in txs)" "v \<in> set (coinsAt H scr t')"
    by (auto simp: newLineage_coins)
  from coinsAt_set [OF t(2)] coinsAt_set [OF t(4)] e have "TxHash H (t_tx t) = TxHash H (t_tx t')"
    by auto
  then have tt: "t = t'"
    using assms t(1,3) by (auto simp: consistent_def distinct_map inj_on_def)
  have "length (TxOut (t_tx t)) < 2 ^ 32"
    using assms t(1) by (auto simp: consistent_def list_all_iff)
  moreover obtain i where i: "i < length (TxOut (t_tx t))" "u = \<lparr>u_outPoint = \<lparr>Hash = TxHash H (t_tx t), Index = word_of_nat i\<rparr>,
      u_value = Value (TxOut (t_tx t) ! i), u_pkScript = scr, u_confirmations = t_confirmations t\<rparr>"
    using coinsAt_set [OF t(2)] by blast
  moreover obtain j where j: "j < length (TxOut (t_tx t))" "v = \<lparr>u_outPoint = \<lparr>Hash = TxHash H (t_tx t), Index = word_of_nat j\<rparr>,
      u_value = Value (TxOut (t_tx t) ! j), u_pkScript = scr, u_confirmations = t_confirmations t\<rparr>"
    using coinsAt_set [OF t(4)] tt by blast
  ultimately have "i = j" using e word_of_nat_32_inj [of i j] by simp
  then show "u = v" using i j by simp
qed

section \<open>The line does not depend on how the history is listed\<close>

definition same_line :: "lineage \<Rightarrow> lineage \<Rightarrow> bool" where
  "same_line a b \<longleftrightarrow> l_script a = l_script b \<and> rootDepth a = rootDepth b \<and> lookup (spentBy a) = lookup (spentBy b)
     \<and> set (l_coins a) = set (l_coins b) \<and> length (l_coins a) = length (l_coins b) \<and> inj_on u_outPoint (set (l_coins a))"

lemma same_line_root: "same_line a b \<Longrightarrow> root a n = root b n"
proof -
  assume ab: "same_line a b"
  let ?d = "\<lambda>u. \<not> (u_confirmations u < rootDepth a \<or> (n > 0 \<and> u_confirmations u \<ge> n))"
  have k: "has_key (spentBy a) = has_key (spentBy b)" "rootDepth a = rootDepth b"
    using ab by (auto simp: same_line_def has_key_def fun_eq_iff)
  have eq: "oldestCoin (filter p (filter ?d (l_coins a))) = oldestCoin (filter p (filter ?d (l_coins b)))" for p
    by (rule oldestCoin_cong) (use ab in \<open>auto simp: same_line_def intro: inj_on_subset\<close>)
  have "(filter p (filter ?d (l_coins a)) = []) = (filter p (filter ?d (l_coins b)) = [])" for p
    using ab by (auto simp: same_line_def filter_empty_conv)
  with eq show ?thesis unfolding root_def Let_def by (simp only: k)
qed

lemma same_line_step: "same_line a b \<Longrightarrow> line_step H a cur = line_step H b cur"
proof -
  assume ab: "same_line a b"
  have e: "l_script a = l_script b" "lookup (spentBy a) = lookup (spentBy b)" "root a = root b"
    using ab same_line_root [OF ab] by (auto simp: same_line_def)
  show ?thesis unfolding line_step_def line_next_def e ..
qed

lemma same_line_tipLoop: "same_line a b \<Longrightarrow> tipLoop H a n cur moved = tipLoop H b n cur moved"
  by (induction n arbitrary: cur moved) (auto simp: same_line_step split: sum.split)

lemma same_line_tip: "same_line a b \<Longrightarrow> tip H a = tip H b"
proof -
  assume ab: "same_line a b"
  have e: "root a = root b" "tipLoop H a = tipLoop H b" "length (l_coins a) = length (l_coins b)"
    using ab same_line_root [OF ab] same_line_tipLoop [OF ab] by (auto simp: same_line_def fun_eq_iff)
  show ?thesis unfolding tip_def e ..
qed

lemma mset_confirmed_in: "mset a = mset b \<Longrightarrow> mset (confirmed_in a) = mset (confirmed_in b)"
  by (simp add: confirmed_in_def)

lemma same_line_perm:
  assumes "consistent H txs" "consistent H txs'" "mset (confirmed_in txs) = mset (confirmed_in txs')"
  shows "same_line (newLineage H txs scr d) (newLineage H txs' scr d)"
proof -
  have s: "set (confirmed_in txs) = set (confirmed_in txs')" using assms(3) mset_eq_setD by blast
  have "lookup (spentBy (newLineage H txs scr d)) op = lookup (spentBy (newLineage H txs' scr d)) op" for op
  proof (cases "lookup (spentBy (newLineage H txs scr d)) op")
    case None
    then show ?thesis using newLineage_unspent [of H txs scr d op] newLineage_unspent [of H txs' scr d op] s by simp
  next
    case (Some t)
    then show ?thesis
      using newLineage_spent_iff [OF assms(1), of scr d op t] newLineage_spent_iff [OF assms(2), of scr d op t] s by simp
  qed
  moreover have "length (concat (map (coinsAt H scr) (confirmed_in txs))) = length (concat (map (coinsAt H scr) (confirmed_in txs')))"
    using assms(3) by (metis length_concat_map mset_map sum_mset_sum_list)
  ultimately show ?thesis
    using s newLineage_inj [OF assms(1)] by (auto simp: same_line_def newLineage_coins)
qed

lemma consistent_perm: "mset (confirmed_in txs) = mset (confirmed_in txs') \<Longrightarrow> consistent H txs \<Longrightarrow> consistent H txs'"
proof -
  assume m: "mset (confirmed_in txs) = mset (confirmed_in txs')" and c: "consistent H txs"
  have "distinct (map (TxHash H \<circ> t_tx) (confirmed_in txs'))"
    using m c by (metis consistent_def mset_eq_imp_distinct_iff mset_map)
  moreover have "set (confirmed_in txs) = set (confirmed_in txs')" using m mset_eq_setD by blast
  ultimately show ?thesis using c by (simp add: consistent_def list_all_iff)
qed

section \<open>The tip\<close>

lemma line_step_stop: "line_step H l cur = Inr (nxt, False) \<Longrightarrow> lookup (spentBy l) cur = None"
  by (auto simp: line_step_def line_next_def split: option.splits sum.splits)

lemma tipLoop_unspent: "tipLoop H l n cur m = Inr (t, m') \<Longrightarrow> lookup (spentBy l) t = None"
  by (induction n arbitrary: cur m) (auto split: sum.splits if_splits prod.splits dest: line_step_stop)

lemma tip_unspent: "tip H l = Inr (Some (t, r, m)) \<Longrightarrow> lookup (spentBy l) t = None"
  by (auto simp: tip_def simp del: tipLoop.simps split: option.splits sum.splits dest: tipLoop_unspent)

lemma anchorIn_Some: "anchorIn H l coins = Some u \<Longrightarrow>
    u \<in> set coins \<and> (\<exists>r m. tip H l = Inr (Some (u_outPoint u, r, m)))"
  by (auto simp: anchorIn_def split: sum.splits option.splits dest: find_SomeD)

section \<open>The bound on the walk is enough\<close>

lemma ordered_confirmed: "ordered H ys \<Longrightarrow> confirmed_in ys = ys"
  by (simp add: ordered_def confirmed_in_def list_all_iff)

lemma ordered_deeper: "ordered H ys \<Longrightarrow> i < j \<Longrightarrow> j < length ys \<Longrightarrow> t_confirmations (ys ! j) \<le> t_confirmations (ys ! i)"
  by (simp add: ordered_def)

lemma ordered_later:
  assumes "ordered H ys" "i < length ys" "j < length ys" "Hash op = TxHash H (t_tx (ys ! i))" "spends (ys ! j) op"
  shows "i < j"
proof (rule ccontr)
  assume "\<not> i < j"
  then have "list_all (\<lambda>ti. Hash (PreviousOutPoint ti) \<noteq> TxHash H (t_tx (ys ! i))) (TxIn (t_tx (ys ! j)))"
    using assms(1-3) by (simp add: ordered_def)
  then show False using assms(4,5) by (auto simp: spends_def list_all_iff)
qed

lemma lastPaying_Some: "lastPaying scr tx = Some i \<Longrightarrow> i < length (TxOut tx) \<and> PkScript (TxOut tx ! i) = scr"
  by (auto simp: lastPaying_def dest!: find_SomeD)

lemma coinsAt_paying: "i < length (TxOut (t_tx t)) \<Longrightarrow> PkScript (TxOut (t_tx t) ! i) = scr \<Longrightarrow> coinsAt H scr t \<noteq> []"
  by (auto simp: coinsAt_def outputs_def filter_empty_conv)

definition later_coins :: "hashes \<Rightarrow> bytes \<Rightarrow> chainTx list \<Rightarrow> nat \<Rightarrow> nat set" where
  "later_coins H scr ys i = {j. i < j \<and> j < length ys \<and> coinsAt H scr (ys ! j) \<noteq> []}"

lemma root_coin: "root l n = Some r \<Longrightarrow> r \<in> set (l_coins l) \<and> (n > 0 \<longrightarrow> u_confirmations r < n)"
  by (auto simp: root_def Let_def split: if_splits dest!: oldestCoin_Some)

lemma coin_index:
  assumes "u \<in> set (concat (map (coinsAt H scr) ys))"
  obtains k where "k < length ys" "u \<in> set (coinsAt H scr (ys ! k))"
  using assms by (auto simp: in_set_conv_nth [of _ ys])

lemma step_advances:
  assumes o: "ordered H ys" and i: "i < length ys" "Hash cur = TxHash H (t_tx (ys ! i))"
    and st: "line_step H (newLineage H ys scr d) cur = Inr (nxt, True)"
  shows "\<exists>j \<in> later_coins H scr ys i. Hash nxt = TxHash H (t_tx (ys ! j))"
proof -
  let ?l = "newLineage H ys scr d"
  obtain t where t: "lookup (spentBy ?l) cur = Some t"
    using st by (auto simp: line_step_def line_next_def split: option.splits)
  then have "t \<in> set ys" "spends t cur"
    using newLineage_spentD [OF t] ordered_confirmed [OF o] by simp_all
  then obtain j where j: "j < length ys" "ys ! j = t" "i < j"
    using ordered_later [OF o i(1) _ i(2)] by (metis in_set_conv_nth)
  show ?thesis
  proof (cases "lastPaying scr (t_tx t)")
    case (Some n)
    then have "coinsAt H scr t \<noteq> []" using lastPaying_Some coinsAt_paying by blast
    moreover have "Hash nxt = TxHash H (t_tx t)" using st t Some by (auto simp: line_step_def line_next_def)
    ultimately show ?thesis using j by (auto simp: later_coins_def)
  next
    case None
    then obtain r where r: "root ?l (t_confirmations t) = Some r" "nxt = u_outPoint r"
      using st t by (auto simp: line_step_def line_next_def split: option.splits)
    have pos: "t_confirmations t > 0" using \<open>t \<in> set ys\<close> o by (auto simp: ordered_def list_all_iff)
    from root_coin [OF r(1)] pos obtain k where k: "k < length ys" "r \<in> set (coinsAt H scr (ys ! k))"
        "u_confirmations r < t_confirmations t"
      using coin_index [of r H scr ys] ordered_confirmed [OF o] by (auto simp: newLineage_coins)
    then have c: "t_confirmations (ys ! k) < t_confirmations (ys ! j)" "Hash nxt = TxHash H (t_tx (ys ! k))"
      using coinsAt_set [OF k(2)] j(2) r(2) by auto
    have "j < k"
    proof (rule ccontr)
      assume "\<not> j < k"
      then have "k < j \<or> k = j" by auto
      then show False using c(1) ordered_deeper [OF o, of k j] k(1) j(1) by auto
    qed
    then have "k \<in> later_coins H scr ys i" using j(3) k by (auto simp: later_coins_def)
    then show ?thesis using c(2) by blast
  qed
qed

lemma tipLoop_bound:
  assumes "ordered H ys"
  shows "i < length ys \<Longrightarrow> Hash cur = TxHash H (t_tx (ys ! i)) \<Longrightarrow> card (later_coins H scr ys i) < n \<Longrightarrow>
    tipLoop H (newLineage H ys scr d) n cur m \<noteq> Inl LineTooLong"
proof (induction n arbitrary: i cur m)
  case (Suc n)
  have fin: "finite (later_coins H scr ys i)" by (simp add: later_coins_def)
  have no: "line_step H (newLineage H ys scr d) cur \<noteq> Inl LineTooLong"
    by (auto simp: line_step_def line_next_def split: option.splits)
  show ?case
  proof (cases "\<exists>nxt. line_step H (newLineage H ys scr d) cur = Inr (nxt, True)")
    case True
    then obtain nxt where nxt: "line_step H (newLineage H ys scr d) cur = Inr (nxt, True)" ..
    from step_advances [OF assms Suc.prems(1,2) nxt] obtain j
      where j: "j \<in> later_coins H scr ys i" "Hash nxt = TxHash H (t_tx (ys ! j))" ..
    then have "later_coins H scr ys j \<subset> later_coins H scr ys i" by (auto simp: later_coins_def)
    from psubset_card_mono [OF fin this] have c: "card (later_coins H scr ys j) < n"
      using Suc.prems(3) by simp
    have "j < length ys" using j(1) by (simp add: later_coins_def)
    from Suc.IH [OF this j(2) c] nxt show ?thesis by simp
  next
    case False
    show ?thesis
    proof (cases "line_step H (newLineage H ys scr d) cur")
      case (Inl e)
      then show ?thesis using no by simp
    next
      case (Inr r)
      then have "\<not> snd r" using False by (cases r) simp
      then show ?thesis using Inr by (cases r) simp
    qed
  qed
qed simp

lemma card_coin_makers: "card {j. j < length ys \<and> f (ys ! j) \<noteq> []} \<le> length (concat (map f ys))"
proof -
  have "length (filter (\<lambda>y. f y \<noteq> []) ys) \<le> length (concat (map f ys))"
  proof (induction ys)
    case (Cons y ys)
    then show ?case by (cases "f y") auto
  qed simp
  then show ?thesis by (simp add: length_filter_conv_card)
qed

lemma tip_bound:
  assumes "ordered H ys"
  shows "tip H (newLineage H ys scr d) \<noteq> Inl LineTooLong"
proof (cases "root (newLineage H ys scr d) 0")
  case (Some r)
  from root_coin [OF Some] obtain i where i: "i < length ys" "r \<in> set (coinsAt H scr (ys ! i))"
    using coin_index [of r H scr ys] ordered_confirmed [OF assms] by (auto simp: newLineage_coins)
  have "card (later_coins H scr ys i) \<le> card {j. j < length ys \<and> coinsAt H scr (ys ! j) \<noteq> []}"
    by (rule card_mono) (auto simp: later_coins_def)
  also have "\<dots> \<le> length (l_coins (newLineage H ys scr d))"
    using card_coin_makers [of ys "coinsAt H scr"] ordered_confirmed [OF assms] by (simp add: newLineage_coins)
  finally have c: "card (later_coins H scr ys i) < length (l_coins (newLineage H ys scr d)) + 1" by simp
  have h: "Hash (u_outPoint r) = TxHash H (t_tx (ys ! i))" using coinsAt_set [OF i(2)] by auto
  show ?thesis using Some tipLoop_bound [OF assms i(1) h c, of d False]
    by (auto simp: tip_def simp del: tipLoop.simps split: sum.splits)
qed (simp add: tip_def)

section \<open>A sample history\<close>

definition samplePeg :: bytes where
  "samplePeg = signers_pkScript sampleHashes sampleSigners"

text \<open>A payment of 9 DOGE to the peg, and the signers' spend of it that returns 4 DOGE.\<close>

definition sampleFunding :: chainTx where
  "sampleFunding = \<lparr>t_tx = \<lparr>Version = 1, TxIn = [NewTxIn sampleOutPoint [] []], TxOut = [NewTxOut 900000000 samplePeg], LockTime = 0\<rparr>,
     t_confirmations = 40, t_time = 1000\<rparr>"

definition sampleCoin :: OutPoint where
  "sampleCoin = \<lparr>Hash = TxHash sampleHashes (t_tx sampleFunding), Index = 0\<rparr>"

definition samplePayout :: chainTx where
  "samplePayout = \<lparr>t_tx = \<lparr>Version = 1, TxIn = [NewTxIn sampleCoin [] []],
     TxOut = [NewTxOut 400000000 [0x51], NewTxOut 400000000 samplePeg], LockTime = 0\<rparr>, t_confirmations = 7, t_time = 2000\<rparr>"

definition sampleTip :: OutPoint where
  "sampleTip = \<lparr>Hash = TxHash sampleHashes (t_tx samplePayout), Index = 1\<rparr>"

lemma sample_history:
  "consistent sampleHashes [samplePayout, sampleFunding]" "ordered sampleHashes [sampleFunding, samplePayout]"
  "tip sampleHashes (newLineage sampleHashes [samplePayout, sampleFunding] samplePeg 20) = Inr (Some (sampleTip, sampleCoin, True))"
  by code_simp+

section \<open>Properties\<close>



text \<open>C11: two signers whose nodes list the same confirmed transactions, in any order and beside
  any transactions not in a block, find the same tip.\<close>

theorem tip_same_for_every_listing:
  assumes "consistent H txs" "mset (confirmed_in txs) = mset (confirmed_in txs')"
  shows "tip H (newLineage H txs scr depth) = tip H (newLineage H txs' scr depth)"
  by (rule same_line_tip [OF same_line_perm [OF assms(1) consistent_perm [OF assms(2,1)] assms(2)]])

definition sampleMempool :: chainTx where
  "sampleMempool = samplePayout\<lparr>t_tx := (t_tx samplePayout)\<lparr>TxIn := [NewTxIn sampleTip [] []]\<rparr>, t_confirmations := 0\<rparr>"

theorem tip_same_for_every_listing_witness:
  "tip sampleHashes (newLineage sampleHashes [sampleFunding, sampleMempool, samplePayout] samplePeg 20) = Inr (Some (sampleTip, sampleCoin, True))
   \<and> spends sampleMempool sampleTip"
proof -
  have "spends sampleMempool sampleTip" by code_simp
  moreover have "mset (confirmed_in [samplePayout, sampleFunding]) = mset (confirmed_in [sampleFunding, sampleMempool, samplePayout])"
    by (simp add: confirmed_in_def sampleMempool_def samplePayout_def sampleFunding_def)
  ultimately show ?thesis using tip_same_for_every_listing [OF sample_history(1)] sample_history(3) by metis
qed

text \<open>C12: on the history of a chain (each transaction spends only outputs of earlier ones) the walk
  along the line reaches its tip within the bound the code gives it.\<close>

theorem tip_walk_ends:
  assumes "consistent H txs" "ordered H ys" "mset (confirmed_in txs) = mset ys"
  shows "tip H (newLineage H txs scr depth) \<noteq> Inl LineTooLong"
proof -
  have m: "mset (confirmed_in txs) = mset (confirmed_in ys)" using assms(3) ordered_confirmed [OF assms(2)] by simp
  have "tip H (newLineage H txs scr depth) = tip H (newLineage H ys scr depth)"
    by (rule same_line_tip [OF same_line_perm [OF assms(1) consistent_perm [OF m assms(1)] m]])
  then show ?thesis using tip_bound [OF assms(2)] by simp
qed

theorem tip_walk_ends_witness:
  "tip sampleHashes (newLineage sampleHashes [samplePayout, sampleFunding] samplePeg 20) \<noteq> Inl LineTooLong"
  by (rule tip_walk_ends [OF sample_history(1,2)]) (simp add: confirmed_in_def samplePayout_def sampleFunding_def)

end
