(* ===== verification/Build.thy ===== *)
theory Build
  imports Lineage
begin

text \<open>
  Choosing coins and building the peg's transactions, \<open>cmd/dogevm/bridge.go\<close>: releases
  and cancellations on DogecoinVM, payouts and refunds on Dogecoin.  Coordinator and
  signers build them with the same functions, so they depend on their arguments alone.
\<close>

section \<open>Choosing coins\<close>

fun pickLoop :: "int \<Rightarrow> utxo list \<Rightarrow> utxo list \<Rightarrow> int \<Rightarrow> utxo list \<times> int" where
  "pickLoop amount [] picked tot = (picked, tot)"
| "pickLoop amount (u # us) picked tot =
     (if tot \<ge> amount then (picked, tot) else pickLoop amount us (picked @ [u]) (tot + u_value u))"

text \<open>\<open>sort.Slice\<close> by falling value; coins of equal value keep their order here.\<close>

definition selectUTXOs :: "utxo list \<Rightarrow> int \<Rightarrow> perr + utxo list \<times> int" where
  "selectUTXOs utxos amount =
     (case pickLoop amount (sort_key (\<lambda>u. - u_value u) utxos) [] 0 of (picked, tot) \<Rightarrow>
      if tot < amount then Inl NotEnough else Inr (picked, tot))"

definition anchoredSelection :: "utxo \<Rightarrow> utxo list \<Rightarrow> int \<Rightarrow> perr + utxo list \<times> int" where
  "anchoredSelection anchor available need =
     (if u_value anchor \<ge> need then Inr ([anchor], u_value anchor)
      else let rest = filter (\<lambda>u. u_outPoint u \<noteq> u_outPoint anchor) available in
        bindr (selectUTXOs rest (need - u_value anchor)) (\<lambda>(more_coins, tot).
          Inr (anchor # more_coins, u_value anchor + tot)))"

definition payoutInputs :: "pegState \<Rightarrow> utxo list \<Rightarrow> int \<Rightarrow> perr + utxo list" where
  "payoutInputs s confirmed value = (case pegAnchor s of
     None \<Rightarrow> Inl NoAnchor
   | Some anchor \<Rightarrow> if \<not> containsOutPoint confirmed (u_outPoint anchor) then Inl AnchorBusy
       else bindr (anchoredSelection anchor confirmed value) (\<lambda>(inputs, t). Inr inputs))"

definition releaseInputs :: "pegState \<Rightarrow> int \<Rightarrow> perr + utxo list \<times> int" where
  "releaseInputs s value = (case reserveAnchor s of
     None \<Rightarrow> Inl AnchorBusy
   | Some anchor \<Rightarrow> if \<not> containsOutPoint (reserveUTXOs s) (u_outPoint anchor) then Inl AnchorBusy
       else anchoredSelection anchor (reserveUTXOs s) (value + pegDust))"

definition cancelInputs :: "pegState \<Rightarrow> int \<Rightarrow> perr + utxo list" where
  "cancelInputs s fee = (case reserveAnchor s of
     None \<Rightarrow> Inl AnchorBusy
   | Some anchor \<Rightarrow> if \<not> containsOutPoint (reserveUTXOs s) (u_outPoint anchor) then Inl AnchorBusy
       else bindr (anchoredSelection anchor (reserveUTXOs s) (fee + pegDust)) (\<lambda>(inputs, t). Inr inputs))"

section \<open>Building transactions\<close>

definition TxVersion :: "32 word" where "TxVersion = 1"

definition valueOf :: "utxo list \<Rightarrow> int" where
  "valueOf coins = foldl (\<lambda>tot u. tot + u_value u) 0 coins"

definition paidOut :: "MsgTx \<Rightarrow> int" where
  "paidOut tx = foldl (\<lambda>tot out. tot + Value out) 0 (TxOut tx)"

definition spendAll :: "32 word \<Rightarrow> utxo list \<Rightarrow> MsgTx \<Rightarrow> MsgTx" where
  "spendAll seq inputs tx = foldl (\<lambda>tx u. AddTxIn ((NewTxIn (u_outPoint u) [] [])\<lparr>Sequence := seq\<rparr>) tx) tx inputs"

definition buildRelease :: "hashes \<Rightarrow> bridge \<Rightarrow> utxo list \<Rightarrow> int \<Rightarrow> deposit \<Rightarrow> perr + MsgTx" where
  "buildRelease H b inputs tot d =
     (let tx = spendAll MaxTxInSequenceNum inputs (NewMsgTx TxVersion);
          tx = AddTxOut (NewTxOut (d_value d - vmFee b) (pkScript (d_dest d))) tx;
          change = tot - d_value d;
          tx = (if change > 0 then AddTxOut (NewTxOut change (signers_pkScript H (signers b))) tx else tx) in
      case nullData (encodeRelease (d_outPoint d)) of
        None \<Rightarrow> Inl Panicked
      | Some nd \<Rightarrow> Inr (AddTxOut nd tx))"

text \<open>Some input but the first could be left out: what is left still covers \<open>need\<close>.\<close>

definition unneeded :: "utxo list \<Rightarrow> int \<Rightarrow> int \<Rightarrow> bool" where
  "unneeded inputs tot need = list_ex (\<lambda>u. tot - u_value u \<ge> need) (tl inputs)"

definition buildPayout :: "hashes \<Rightarrow> bridge \<Rightarrow> utxo list \<Rightarrow> int \<Rightarrow> destination \<Rightarrow> bytes \<Rightarrow> int \<Rightarrow> perr + MsgTx" where
  "buildPayout H b inputs value dest data fee =
     (let tx = spendAll (MaxTxInSequenceNum - 2) inputs (NewMsgTx 1); tot = valueOf inputs in
      if tot < value then Inl InputsShort
      else if pkScript dest = signers_pkScript H (signers b) then Inl PaysPeg
      else if unneeded inputs tot value then Inl NotNeeded
      else let change = (if tot - value < pegDust then pegDust else tot - value);
               topUp = (if tot - value < pegDust then pegDust - (tot - value) else 0);
               pays = value - fee - topUp in
      case nullData data of
        None \<Rightarrow> Inl Panicked
      | Some nd \<Rightarrow> if pays < pegDust then Inl FeeNotCovered
          else Inr (AddTxOut nd (AddTxOut (NewTxOut change (signers_pkScript H (signers b)))
                 (AddTxOut (NewTxOut pays (pkScript dest)) tx))))"

definition buildCancel :: "hashes \<Rightarrow> bridge \<Rightarrow> utxo list \<Rightarrow> OutPoint \<Rightarrow> perr + MsgTx" where
  "buildCancel H b inputs op =
     (let need = vmFee b + pegDust; tot = valueOf inputs in
      if inputs = [] \<or> tot < need then Inl CancelShort
      else if unneeded inputs tot need then Inl NotNeeded
      else let tx = spendAll MaxTxInSequenceNum inputs (NewMsgTx TxVersion);
               tx = AddTxOut (NewTxOut (tot - vmFee b) (signers_pkScript H (signers b))) tx in
      case nullData (encodeCancel op) of
        None \<Rightarrow> Inl Panicked
      | Some nd \<Rightarrow> Inr (AddTxOut nd tx))"

section \<open>Selections\<close>

lemma valueOf_sum: "valueOf coins = sum_list (map u_value coins)"
proof -
  have "foldl (\<lambda>tot u. tot + u_value u) a coins = a + sum_list (map u_value coins)" for a
    by (induction coins arbitrary: a) simp_all
  then show ?thesis by (simp add: valueOf_def)
qed

lemma paidOut_sum: "paidOut tx = sum_list (map Value (TxOut tx))"
proof -
  have "foldl (\<lambda>tot out. tot + Value out) a outs = a + sum_list (map Value outs)" for a and outs :: "TxOut list"
    by (induction outs arbitrary: a) simp_all
  then show ?thesis by (simp add: paidOut_def)
qed

text \<open>The loop takes a prefix: just enough of it, or all of it.\<close>

lemma pickLoop_prefix:
  "pickLoop amount us picked tot = (p, t) \<Longrightarrow>
   \<exists>n. p = picked @ take n us \<and> t = tot + sum_list (map u_value (take n us)) \<and> n \<le> length us \<and>
     (n < length us \<longrightarrow> t \<ge> amount) \<and> (n > 0 \<longrightarrow> t - u_value (us ! (n - 1)) < amount)"
proof (induction us arbitrary: picked tot)
  case Nil
  then show ?case by simp
next
  case (Cons u us)
  show ?case
  proof (cases "tot \<ge> amount")
    case True
    then show ?thesis using Cons.prems by (intro exI [of _ 0]) simp
  next
    case False
    then obtain n where n: "p = (picked @ [u]) @ take n us" "t = tot + u_value u + sum_list (map u_value (take n us))" "n \<le> length us"
      "n < length us \<longrightarrow> t \<ge> amount" "n > 0 \<longrightarrow> t - u_value (us ! (n - 1)) < amount"
      using Cons.IH [of "picked @ [u]" "tot + u_value u"] Cons.prems by auto
    have "t - u_value ((u # us) ! (Suc n - 1)) < amount"
      using n False by (cases n) simp_all
    then show ?thesis using n by (intro exI [of _ "Suc n"]) simp
  qed
qed

lemma selectUTXOs_Inr:
  assumes "selectUTXOs utxos amount = Inr (picked, tot)"
  shows "tot = valueOf picked" "tot \<ge> amount" "mset picked \<subseteq># mset utxos"
    "\<And>u. u \<in> set picked \<Longrightarrow> tot - u_value u < amount"
proof -
  let ?s = "sort_key (\<lambda>u. - u_value u) utxos"
  obtain n where n: "picked = take n ?s" "tot = sum_list (map u_value (take n ?s))" "n \<le> length ?s" "tot \<ge> amount"
      "n > 0 \<longrightarrow> tot - u_value (?s ! (n - 1)) < amount"
    using assms pickLoop_prefix [of amount ?s "[]" 0 picked tot]
    by (auto simp: selectUTXOs_def split: prod.splits if_splits)
  show "tot = valueOf picked" "tot \<ge> amount" using n by (simp_all add: valueOf_sum)
  show "mset picked \<subseteq># mset utxos"
    using n(1) by (metis append_take_drop_id mset_append mset_sort mset_subset_eq_add_left)
  fix u assume "u \<in> set picked"
  then obtain i where i: "i < n" "u = ?s ! i"
    using n(1,3) by (auto simp: in_set_conv_nth)
  have "sorted (map (\<lambda>u. - u_value u) ?s)" by simp
  then have "- u_value (?s ! i) \<le> - u_value (?s ! (n - 1))"
    using i(1) n(3) by (auto simp: sorted_iff_nth_mono)
  then show "tot - u_value u < amount" using n(5) i by auto
qed

lemma selectUTXOs_Inl:
  assumes "selectUTXOs utxos amount = Inl e"
  shows "valueOf utxos < amount"
proof -
  let ?s = "sort_key (\<lambda>u. - u_value u) utxos"
  obtain p t where pt: "pickLoop amount ?s [] 0 = (p, t)" by fastforce
  then have t: "t < amount" using assms by (simp add: selectUTXOs_def split: if_splits)
  obtain n where "t = 0 + sum_list (map u_value (take n ?s))" "n \<le> length ?s" "n < length ?s \<longrightarrow> t \<ge> amount"
    using pickLoop_prefix [OF pt] by blast
  then have "t = sum_list (map u_value ?s)" using t by simp
  moreover have "mset (map u_value ?s) = mset (map u_value utxos)" by simp
  ultimately have "t = valueOf utxos" unfolding valueOf_sum by (metis sum_mset_sum_list)
  then show ?thesis using t by simp
qed

lemma anchoredSelection_Inr:
  assumes "anchoredSelection anchor available need = Inr (inputs, tot)"
  shows "hd inputs = anchor" "inputs \<noteq> []" "tot = valueOf inputs" "tot \<ge> need" "\<not> unneeded inputs tot need"
    "set (tl inputs) \<subseteq> set available" "\<And>u. u \<in> set (tl inputs) \<Longrightarrow> u_outPoint u \<noteq> u_outPoint anchor"
proof -
  show "hd inputs = anchor" "inputs \<noteq> []"
    using assms by (auto simp: anchoredSelection_def Let_def bindr_Inr_iff split: if_splits)
  have "tot = valueOf inputs \<and> tot \<ge> need \<and> \<not> unneeded inputs tot need
      \<and> (\<forall>u \<in> set (tl inputs). u \<in> set available \<and> u_outPoint u \<noteq> u_outPoint anchor)"
  proof (cases "u_value anchor \<ge> need")
    case True
    then show ?thesis using assms by (auto simp: anchoredSelection_def valueOf_def unneeded_def)
  next
    case False
    let ?rest = "filter (\<lambda>u. u_outPoint u \<noteq> u_outPoint anchor) available"
    from False assms obtain ms t where s: "selectUTXOs ?rest (need - u_value anchor) = Inr (ms, t)"
        "inputs = anchor # ms" "tot = u_value anchor + t"
      by (auto simp: anchoredSelection_def Let_def bindr_Inr_iff)
    note p = selectUTXOs_Inr [OF s(1)]
    have "set ms \<subseteq> set ?rest" using set_mset_mono [OF p(3)] by simp
    then have "\<forall>u \<in> set ms. u \<in> set available \<and> u_outPoint u \<noteq> u_outPoint anchor" by auto
    moreover have "\<not> unneeded inputs tot need"
      unfolding unneeded_def list_ex_iff s(2,3) list.sel using p(4) by (simp add: not_le algebra_simps)
    ultimately show ?thesis using p(1,2) s(2,3) by (simp add: valueOf_sum)
  qed
  then show "tot = valueOf inputs" "tot \<ge> need" "\<not> unneeded inputs tot need"
    "set (tl inputs) \<subseteq> set available" "\<And>u. u \<in> set (tl inputs) \<Longrightarrow> u_outPoint u \<noteq> u_outPoint anchor" by auto
qed

section \<open>What the builders pay\<close>

lemma spendAll_simps [simp]:
  "TxOut (spendAll seq inputs tx) = TxOut tx" "Version (spendAll seq inputs tx) = Version tx"
  "LockTime (spendAll seq inputs tx) = LockTime tx"
  "TxIn (spendAll seq inputs tx) = TxIn tx @ map (\<lambda>u. (NewTxIn (u_outPoint u) [] [])\<lparr>Sequence := seq\<rparr>) inputs"
  by (induction inputs arbitrary: tx) (simp_all add: spendAll_def AddTxIn_def)

lemma NewMsgTx_simps [simp]:
  "TxIn (NewMsgTx v) = []" "TxOut (NewMsgTx v) = []" "Version (NewMsgTx v) = v" "LockTime (NewMsgTx v) = 0"
  by (simp_all add: NewMsgTx_def)

lemma AddTxOut_simps [simp]:
  "TxOut (AddTxOut out tx) = TxOut tx @ [out]" "TxIn (AddTxOut out tx) = TxIn tx" "Version (AddTxOut out tx) = Version tx"
  "LockTime (AddTxOut out tx) = LockTime tx"
  by (simp_all add: AddTxOut_def)

lemma NewTxOut_simps [simp]: "Value (NewTxOut v s) = v" "PkScript (NewTxOut v s) = s"
  by (simp_all add: NewTxOut_def)

lemma NewTxOut_inject [simp]: "NewTxOut v s = NewTxOut w t \<longleftrightarrow> v = w \<and> s = t"
  by (simp add: NewTxOut_def)

lemma NewTxIn_simps [simp]: "PreviousOutPoint (NewTxIn op s w) = op" "SignatureScript (NewTxIn op s w) = s"
  "Witness (NewTxIn op s w) = w" "Sequence (NewTxIn op s w) = MaxTxInSequenceNum"
  by (simp_all add: NewTxIn_def)

lemma nullData_shape: "nullData data = Some nd \<Longrightarrow> Value nd = 0 \<and> hd (PkScript nd) = OP_RETURN"
  by (auto simp: nullData_def NewTxOut_def NullDataScript_def Script_of_def AddData_def AddOp_def NewScriptBuilder_def
      addData_def split: sum.splits if_splits option.splits)

lemma signers_pkScript_eq: "signers_pkScript H s = [OP_HASH160, 20] @ hash160Of H (redeemScript s) @ [OP_EQUAL]"
  by (simp add: signers_pkScript_def p2shScript_def pkScript_p2sh hash160Of_def)

lemma nullData_not_peg: "nullData data = Some nd \<Longrightarrow> PkScript nd \<noteq> signers_pkScript H s"
  using nullData_shape [of data nd] by (auto simp: signers_pkScript_eq opcodes)

text \<open>The outputs of each kind of transaction.\<close>

lemma buildPayout_outs:
  assumes "buildPayout H b inputs value dest data fee = Inr tx"
  shows "\<exists>nd pays change. TxOut tx = [NewTxOut pays (pkScript dest), NewTxOut change (signers_pkScript H (signers b)), nd]
    \<and> nullData data = Some nd \<and> pays \<ge> pegDust \<and> change \<ge> pegDust \<and> pays + change = valueOf inputs - fee
    \<and> pays \<le> value - fee \<and> pkScript dest \<noteq> signers_pkScript H (signers b) \<and> valueOf inputs \<ge> value
    \<and> map PreviousOutPoint (TxIn tx) = map u_outPoint inputs \<and> \<not> unneeded inputs (valueOf inputs) value"
  using assms
  by (auto simp: buildPayout_def Let_def not_less comp_def split: if_splits option.splits)

lemma buildCancel_outs:
  assumes "buildCancel H b inputs op = Inr tx"
  shows "\<exists>nd. TxOut tx = [NewTxOut (valueOf inputs - vmFee b) (signers_pkScript H (signers b)), nd]
    \<and> nullData (encodeCancel op) = Some nd \<and> valueOf inputs - vmFee b \<ge> pegDust
    \<and> map PreviousOutPoint (TxIn tx) = map u_outPoint inputs \<and> inputs \<noteq> []"
  using assms
  by (auto simp: buildCancel_def Let_def not_less comp_def split: if_splits option.splits)

lemma buildRelease_outs:
  assumes "buildRelease H b inputs tot d = Inr tx"
  shows "\<exists>nd. TxOut tx = [NewTxOut (d_value d - vmFee b) (pkScript (d_dest d))]
       @ (if tot > d_value d then [NewTxOut (tot - d_value d) (signers_pkScript H (signers b))] else []) @ [nd]
    \<and> nullData (encodeRelease (d_outPoint d)) = Some nd \<and> map PreviousOutPoint (TxIn tx) = map u_outPoint inputs"
  using assms
  by (auto simp: buildRelease_def Let_def comp_def split: if_splits option.splits)

lemma lastPaying_last:
  assumes "TxOut tx = a @ out # c" "PkScript out = scr" "\<forall>x \<in> set c. PkScript x \<noteq> scr"
  shows "lastPaying scr tx = Some (length a)"
proof -
  have "List.find (\<lambda>i. PkScript ((a @ out # c) ! i) = scr) (rev [length a..<length a + Suc (length c)]) = Some (length a)"
    using assms(3)
  proof (induction c rule: rev_induct)
    case Nil
    then show ?case using assms(2) by (simp add: nth_append)
  next
    case (snoc x c)
    have "List.find (\<lambda>i. PkScript ((a @ out # c @ [x]) ! i) = scr) (rev [length a..<length a + Suc (length c)])
        = List.find (\<lambda>i. PkScript ((a @ out # c) ! i) = scr) (rev [length a..<length a + Suc (length c)])"
      by (rule find_cong) (auto simp: nth_append nth_Cons split: nat.split)
    then show ?case using snoc by (simp add: nth_append)
  qed
  moreover have "rev [0..<length (TxOut tx)] = rev [length a..<length a + Suc (length c)] @ rev [0..<length a]"
    using upt_add_eq_append [of 0 "length a" "Suc (length c)"] by (simp add: assms(1) del: upt_Suc flip: rev_append)
  moreover have "List.find P (xs @ ys) = (case List.find P xs of None \<Rightarrow> List.find P ys | Some y \<Rightarrow> Some y)" for P and xs ys :: "nat list"
    by (induction xs) simp_all
  ultimately show ?thesis by (simp add: lastPaying_def assms(1) del: upt_Suc)
qed

section \<open>Tags of built transactions\<close>

lemma wf_signers_destination: "wf_destination (signers_destination H s)"
  by (simp add: signers_destination_def wf_destination_def hash160Of_def)

lemma class_peg: "GetScriptClass (signers_pkScript H s) = ScriptHashTy"
  using class_pkScript [OF wf_signers_destination [of H s]]
  by (simp add: signers_pkScript_def p2shScript_def signers_destination_def)

lemma class_dest: "wf_destination d \<Longrightarrow> GetScriptClass (pkScript d) \<noteq> NullDataTy"
  by (simp add: class_pkScript)

lemma length_outpoint_tag: "wf_OutPoint op \<Longrightarrow> length tag = 4 \<Longrightarrow> length (encodeOutPointTag tag op) = 40"
  by (simp add: encodeOutPointTag_def wf_OutPoint_def HashSize_def)

lemma opReturnData_last:
  assumes "TxOut tx = outs @ [nd]" "nullData data = Some nd" "4 \<le> length data" "length data \<le> MaxDataCarrierSize"
    and "list_all (\<lambda>o'. GetScriptClass (PkScript o') \<noteq> NullDataTy) outs"
  shows "opReturnData tx = Some (take 4 data, drop 4 data)"
  using opReturnData_one [OF assms(2-4), of tx outs "[]"] assms(1,5) by simp

lemma tag_lengths [simp]: "length tagRelease = 4" "length tagCancel = 4" "length tagRefund = 4" "length tagPayment = 4"
  "length tagDeposit = 4" "length tagPegOut = 4" "length tagContrib = 4" "length tagFence = 4"
  by (simp_all add: tag_defs)

lemma nullData_outpoint_tag: "wf_OutPoint op \<Longrightarrow> length tag = 4 \<Longrightarrow> \<exists>nd. nullData (encodeOutPointTag tag op) = Some nd"
  by (simp add: nullData_ok length_outpoint_tag MaxDataCarrierSize_def)

lemma fee_outs: "TxOut tx = a @ [nd] \<Longrightarrow> nullData data = Some nd \<Longrightarrow> paidOut tx = sum_list (map Value a)"
  using nullData_shape [of data nd] by (simp add: paidOut_sum)

section \<open>Samples\<close>

definition sampleDest :: destination where
  "sampleDest = \<lparr>kind = destP2PKH, dhash = replicate 20 9\<rparr>"

definition coinOf :: "OutPoint \<Rightarrow> int \<Rightarrow> int \<Rightarrow> utxo" where
  "coinOf op v c = \<lparr>u_outPoint = op, u_value = v, u_pkScript = samplePeg, u_confirmations = c\<rparr>"

definition otherCoin :: OutPoint where
  "otherCoin = \<lparr>Hash = replicate 32 8, Index = 1\<rparr>"

definition sampleCoins :: "utxo list" where
  "sampleCoins = [coinOf otherCoin 300000000 9, coinOf sampleTip 400000000 7]"

definition sampleDeposit :: deposit where
  "sampleDeposit = \<lparr>d_time = 5, d_outPoint = otherCoin, d_value = 500000000, d_dest = sampleDest, d_valid = True, d_hasDest = True,
     d_confirmations = 30\<rparr>"

lemma wf_samples: "wf_destination sampleDest" "wf_OutPoint otherCoin" "wf_OutPoint sampleTip" "wf_OutPoint sampleCoin"
  by code_simp+

section \<open>Properties\<close>

text \<open>C14: the coins the coordinator picks for a payout start with the peg's anchor, cover the payout and
  contain none it does not need, so that the payout built from them is refused only if its
  destination is the peg itself or the amount does not cover the fee and the change.\<close>

theorem payout_of_picked_inputs:
  assumes "pegAnchor s = Some anchor" "payoutInputs s coins value = Inr inputs"
    and "length data \<le> MaxDataCarrierSize" "pkScript dest \<noteq> signers_pkScript H (signers b)" "value - fee \<ge> 2 * pegDust"
  shows "hd inputs = anchor \<and> (\<exists>tx. buildPayout H b inputs value dest data fee = Inr tx)"
proof -
  obtain t where sel: "anchoredSelection anchor coins value = Inr (inputs, t)"
    using assms(1,2) by (auto simp: payoutInputs_def bindr_Inr_iff split: if_splits)
  note a = anchoredSelection_Inr [OF sel]
  have p: "0 \<le> pegDust" by (simp add: pegDust_def)
  have "\<not> value - fee - (if valueOf inputs - value < pegDust then pegDust - (valueOf inputs - value) else 0) < pegDust"
    using assms(5) a(3,4) p by auto
  then show ?thesis
    using a assms(3,4) by (simp add: buildPayout_def Let_def nullData_ok)
qed

theorem payout_of_picked_inputs_witness:
  "\<exists>tx inputs. payoutInputs (emptyState\<lparr>pegAnchor := Some (coinOf sampleTip 400000000 7)\<rparr>) sampleCoins 600000000 = Inr inputs
     \<and> length inputs = 2 \<and> hd inputs = coinOf sampleTip 400000000 7
     \<and> buildPayout sampleHashes sampleBridge inputs 600000000 sampleDest (encodePayment (replicate 32 1)) 100000000 = Inr tx"
proof -
  let ?s = "emptyState\<lparr>pegAnchor := Some (coinOf sampleTip 400000000 7)\<rparr>" and ?in = "[coinOf sampleTip 400000000 7, coinOf otherCoin 300000000 9]"
  have "anchoredSelection (coinOf sampleTip 400000000 7) sampleCoins 600000000 = Inr (?in, 700000000)" by code_simp
  moreover have "containsOutPoint sampleCoins (u_outPoint (coinOf sampleTip 400000000 7))" by code_simp
  ultimately have p: "payoutInputs ?s sampleCoins 600000000 = Inr ?in" by (simp add: payoutInputs_def)
  have "length (encodePayment (replicate 32 1)) \<le> MaxDataCarrierSize"
    "pkScript sampleDest \<noteq> signers_pkScript sampleHashes (signers sampleBridge)" by code_simp+
  moreover have "600000000 - 100000000 \<ge> 2 * pegDust" by (simp add: pegDust_def)
  ultimately show ?thesis using payout_of_picked_inputs [OF _ p] p by fastforce
qed



text \<open>C15: a release built from the coins the coordinator picks takes the whole deposit from the reserve,
  pays the depositor all but the DogecoinVM fee, returns the rest, at least the dust limit, to the
  reserve as the line's next coin, and is read back as the release of that deposit.\<close>

theorem release_conserves:
  assumes "releaseInputs s (d_value d) = Inr (inputs, tot)" "buildRelease H b inputs tot d = Inr tx"
    and "wf_destination (d_dest d)" "wf_OutPoint (d_outPoint d)" "pkScript (d_dest d) \<noteq> signers_pkScript H (signers b)"
  shows "valueOf inputs - paidOut tx = vmFee b \<and> Value (TxOut tx ! 0) = d_value d - vmFee b
    \<and> PkScript (TxOut tx ! 0) = pkScript (d_dest d)
    \<and> lastPaying (signers_pkScript H (signers b)) tx = Some 1 \<and> Value (TxOut tx ! 1) = valueOf inputs - d_value d
    \<and> pegDust \<le> Value (TxOut tx ! 1) \<and> parseRelease tx = Some (d_outPoint d)"
proof -
  obtain anchor where sel: "anchoredSelection anchor (reserveUTXOs s) (d_value d + pegDust) = Inr (inputs, tot)"
    using assms(1) by (auto simp: releaseInputs_def split: option.splits if_splits)
  note a = anchoredSelection_Inr [OF sel]
  have t: "tot = valueOf inputs" "d_value d + pegDust \<le> valueOf inputs" "0 < pegDust" using a by (auto simp: pegDust_def)
  let ?peg = "signers_pkScript H (signers b)"
  obtain nd where o: "TxOut tx = [NewTxOut (d_value d - vmFee b) (pkScript (d_dest d)), NewTxOut (valueOf inputs - d_value d) ?peg] @ [nd]"
    and n: "nullData (encodeRelease (d_outPoint d)) = Some nd"
    using buildRelease_outs [OF assms(2)] t by auto
  have "lastPaying ?peg tx = Some (length [NewTxOut (d_value d - vmFee b) (pkScript (d_dest d))])"
    by (rule lastPaying_last [where c = "[nd]" and out = "NewTxOut (valueOf inputs - d_value d) ?peg"])
       (use o nullData_not_peg [OF n] in auto)
  moreover have "parseRelease tx = Some (d_outPoint d)"
    unfolding parseRelease_def
    by (rule parseOutPointTag_encode [OF opReturnData_last [OF o n [unfolded encodeRelease_def]]])
       (use assms(3,4) in \<open>auto simp: length_outpoint_tag MaxDataCarrierSize_def class_peg class_dest\<close>)
  ultimately show ?thesis using t fee_outs [OF o n] by (simp add: o)
qed

definition sampleReserve :: "pegState \<Rightarrow> pegState" where
  "sampleReserve s = s\<lparr>reserveAnchor := Some (coinOf sampleTip 400000000 7), reserveUTXOs := sampleCoins\<rparr>"

theorem release_conserves_witness:
  "\<exists>tx. buildRelease sampleHashes sampleBridge [coinOf sampleTip 400000000 7, coinOf otherCoin 300000000 9] 700000000 sampleDeposit = Inr tx
     \<and> parseRelease tx = Some otherCoin"
proof -
  let ?in = "[coinOf sampleTip 400000000 7, coinOf otherCoin 300000000 9]"
  have "anchoredSelection (coinOf sampleTip 400000000 7) sampleCoins (d_value sampleDeposit + pegDust) = Inr (?in, 700000000)"
    "containsOutPoint sampleCoins (u_outPoint (coinOf sampleTip 400000000 7))" by code_simp+
  then have r: "releaseInputs (sampleReserve s) (d_value sampleDeposit) = Inr (?in, 700000000)" for s
    by (simp add: releaseInputs_def sampleReserve_def)
  have "is_ok (buildRelease sampleHashes sampleBridge ?in 700000000 sampleDeposit)" by code_simp
  then obtain tx where tx: "buildRelease sampleHashes sampleBridge ?in 700000000 sampleDeposit = Inr tx" by (auto simp: is_ok_iff)
  have "pkScript (d_dest sampleDeposit) \<noteq> signers_pkScript sampleHashes (signers sampleBridge)" by code_simp
  then show ?thesis using release_conserves [OF r tx] wf_samples tx by (simp add: sampleDeposit_def)
qed



end
