(* ===== verification/Load.thy ===== *)
theory Load
  imports Build
begin

text \<open>
  Reading the peg's state back from the two chains and auditing it: \<open>load\<close> and \<open>audit\<close>
  of \<open>cmd/dogevm/bridge.go\<close>.  The long \<open>load\<close> is cut at its comments: the DogecoinVM
  transactions, the reserve, the Dogecoin transactions, the deposits, the locked coins.
\<close>

section \<open>Helpers\<close>

definition zeroHash :: bytes where "zeroHash = replicate 32 0"

definition isCoinbase :: "MsgTx \<Rightarrow> bool" where
  "isCoinbase tx = (case TxIn tx of
     [ti] \<Rightarrow> Index (PreviousOutPoint ti) = 0xffffffff \<and> Hash (PreviousOutPoint ti) = zeroHash
   | _ \<Rightarrow> False)"

definition spendsAny :: "MsgTx \<Rightarrow> OutPoint list \<Rightarrow> bool" where
  "spendsAny tx outs = list_ex (\<lambda>ti. PreviousOutPoint ti \<in> set outs) (TxIn tx)"

definition outputsTo :: "hashes \<Rightarrow> MsgTx \<Rightarrow> bytes \<Rightarrow> OutPoint list \<times> int" where
  "outputsTo H tx scr = (let outs = filter (\<lambda>(op, out). PkScript out = scr) (outputs H tx) in
     (map fst outs, sum_list (map (Value \<circ> snd) outs)))"

definition isCancelled :: "pegState \<Rightarrow> OutPoint \<Rightarrow> bool" where
  "isCancelled s op = has_key (cancelled s) op"

definition isUnconfirmed :: "pegState \<Rightarrow> bytes \<Rightarrow> bool" where
  "isUnconfirmed s txid = has_key (unconfirmed s) txid"

text \<open>A file: absent, unreadable, or its contents.\<close>

datatype fileRead = NoFile | Unreadable | Contents string

definition firstField :: "string \<Rightarrow> string" where
  "firstField line = takeWhile (\<lambda>c. \<not> isSpace c) (dropWhile isSpace line)"

fun contributionLines :: "string list \<Rightarrow> string list \<Rightarrow> perr + string list" where
  "contributionLines [] listed = Inr listed"
| "contributionLines (line # lines) listed =
     (let f = firstField line in
      if f = [] \<or> hd f = CHR ''#'' then contributionLines lines listed
      else if CHR '':'' \<notin> set f then Inl BadContribution
      else case parseOutPoint f of
        None \<Rightarrow> Inl BadContribution
      | Some op \<Rightarrow> contributionLines lines (OutPoint_String op # listed))"

definition listedContributions :: "fileRead \<Rightarrow> perr + string list" where
  "listedContributions f = (case f of
     NoFile \<Rightarrow> Inr []
   | Unreadable \<Rightarrow> Inl ReadFailed
   | Contents raw \<Rightarrow> contributionLines (split_at (char_of (10 :: nat)) raw) [])"

section \<open>DogecoinVM\<close>

definition reserveOutputs :: "hashes \<Rightarrow> bytes \<Rightarrow> chainTx list \<Rightarrow> OutPoint list" where
  "reserveOutputs H scr txs = concat (map (\<lambda>t. fst (outputsTo H (t_tx t) scr)) txs)"

definition loadSignerVmTx :: "hashes \<Rightarrow> chainTx \<Rightarrow> pegState \<Rightarrow> pegState" where
  "loadSignerVmTx H t s =
     (let hash = TxHash H (t_tx t);
          s = (case parseRelease (t_tx t) of None \<Rightarrow> s
               | Some d \<Rightarrow> s\<lparr>released := store (released s) d hash\<rparr>);
          s = (case parseCancel (t_tx t) of None \<Rightarrow> s
               | Some d \<Rightarrow> s\<lparr>cancelled := store (cancelled s) d (get_or (cancelled s) d False \<or> t_confirmations t > 0)\<rparr>) in
      if t_confirmations t = 0
      then s\<lparr>vmPending := True, vmUnconfirmed := store (vmUnconfirmed s) hash t\<rparr> else s)"

definition loadPegOut :: "hashes \<Rightarrow> bridge \<Rightarrow> bytes \<Rightarrow> int \<Rightarrow> chainTx \<Rightarrow> pegState \<Rightarrow> pegState" where
  "loadPegOut H b scr paidIn t s =
     (if t_confirmations t = 0 then s else
      let tagged = parseDestinationTag (t_tx t) tagPegOut;
          dest = (case tagged of None \<Rightarrow> zeroDestination | Some d \<Rightarrow> d);
          ok = (tagged \<noteq> None \<and> pkScript dest \<noteq> scr);
          p = \<lparr>p_time = t_time t, p_txid = TxHash H (t_tx t), p_value = paidIn, p_dest = dest,
               p_valid = (ok \<and> paidIn \<ge> minPegOut b), p_confirmations = t_confirmations t\<rparr> in
      if p_valid p then s\<lparr>pegOuts := pegOuts s @ [p]\<rparr> else s\<lparr>unclaimedOnVM := unclaimedOnVM s + paidIn\<rparr>)"

definition loadVmTx :: "hashes \<Rightarrow> bridge \<Rightarrow> bytes \<Rightarrow> OutPoint list \<Rightarrow> chainTx \<Rightarrow> pegState \<Rightarrow> pegState" where
  "loadVmTx H b scr reserveOuts t s =
     (let paidIn = snd (outputsTo H (t_tx t) scr) in
      if isCoinbase (t_tx t) then (if t_confirmations t > 0 then s\<lparr>reserveCreated := reserveCreated s + paidIn\<rparr> else s)
      else if spendsAny (t_tx t) reserveOuts then loadSignerVmTx H t s
      else loadPegOut H b scr paidIn t s)"

definition loadReserve :: "hashes \<Rightarrow> bytes \<Rightarrow> OutPoint list \<Rightarrow> chainTx list \<Rightarrow> utxo list \<Rightarrow> pegState \<Rightarrow> pegState" where
  "loadReserve H scr reserveOuts txs heldCoins s =
     (let signerSpends = map (TxHash H \<circ> t_tx) (filter (\<lambda>t. \<not> isCoinbase (t_tx t) \<and> spendsAny (t_tx t) reserveOuts) txs);
          spentByKnown = concat (map (\<lambda>t. map PreviousOutPoint (TxIn (t_tx t))) txs);
          reserveCoins = filter (\<lambda>u. u_confirmations u > 0) heldCoins;
          line = newLineage H txs scr 1;
          counted = filter (\<lambda>u. u_outPoint u \<notin> set spentByKnown
              \<and> \<not> (u_confirmations u = 0 \<and> Hash (u_outPoint u) \<notin> set signerSpends)) heldCoins in
      s\<lparr>reserveLine := line, reserveAnchor := anchorIn H line reserveCoins,
        reserveUnspent := reserveUnspent s + valueOf counted,
        reserveUTXOs := reserveUTXOs s @ filter (\<lambda>u. u_confirmations u > 0) counted\<rparr>)"

definition loadVm :: "hashes \<Rightarrow> bridge \<Rightarrow> chain \<Rightarrow> pegState \<Rightarrow> perr + pegState" where
  "loadVm H b vm s =
     (let scr = signers_pkScript H (signers b) in
      bindr (txsFor vm [scr]) (\<lambda>txs.
      let s = s\<lparr>vmTxs := txs\<rparr>; reserveOuts = reserveOutputs H scr txs;
          s = foldl (\<lambda>s t. loadVmTx H b scr reserveOuts t s) s txs in
      bindr (unspent vm [scr] 0) (\<lambda>heldCoins. Inr (loadReserve H scr reserveOuts txs heldCoins s))))"

section \<open>Dogecoin\<close>

text \<open>The watched scripts; the registry's list of destinations is read from its file.\<close>

definition dogeWatchSet :: "hashes \<Rightarrow> bridge \<Rightarrow> destination list \<Rightarrow> bytes list \<times> (bytes, bytes) gomap \<times> (bytes, destination) gomap" where
  "dogeWatchSet H b dests =
     foldl (\<lambda>(addrs, redeemFor, dd) d.
        let redeem = depositRedeemScript (signers b) d; addr = p2shScript H redeem in
        (addrs @ [addr], store redeemFor addr redeem, store dd addr d))
      ([signers_pkScript H (signers b)], [(signers_pkScript H (signers b), redeemScript (signers b))], []) dests"

definition pegOutputs :: "hashes \<Rightarrow> (bytes, bytes) gomap \<Rightarrow> chainTx list \<Rightarrow> (OutPoint \<times> TxOut \<times> chainTx) list" where
  "pegOutputs H redeem txs = concat (map (\<lambda>t. map (\<lambda>(op, out). (op, out, t))
     (filter (\<lambda>(op, out). has_key redeem (PkScript out)) (outputs H (t_tx t)))) txs)"

text \<open>If an action has two transactions listed, the one in a block counts.\<close>

definition counts :: "pegState \<Rightarrow> chainTx \<Rightarrow> bytes option \<Rightarrow> bool" where
  "counts s t prev = (case prev of None \<Rightarrow> True | Some h \<Rightarrow> has_key (unconfirmed s) h \<and> t_confirmations t > 0)"

definition loadSignerDogeTx :: "hashes \<Rightarrow> bridge \<Rightarrow> chainTx \<Rightarrow> pegState \<times> deposit list \<Rightarrow> pegState \<times> deposit list" where
  "loadSignerDogeTx H b t = (\<lambda>(s, alls).
     let hash = TxHash H (t_tx t);
         s = (if t_confirmations t = 0 then s\<lparr>unconfirmed := store (unconfirmed s) hash t\<rparr> else s);
         s = (case parsePayment (t_tx t) of None \<Rightarrow> s
              | Some request \<Rightarrow> if counts s t (lookup (paid s) request) then s\<lparr>paid := store (paid s) request hash\<rparr> else s);
         s = (case parseRefund (t_tx t) of None \<Rightarrow> s
              | Some d \<Rightarrow> if counts s t (lookup (refunded s) d) then s\<lparr>refunded := store (refunded s) d hash\<rparr> else s);
         new = concat (map (\<lambda>(op, out). case lookup (depositDest s) (PkScript out) of
             None \<Rightarrow> []
           | Some dest \<Rightarrow> [\<lparr>d_time = t_time t, d_outPoint = op, d_value = Value out, d_dest = dest,
               d_valid = creditable H b dest (Value out), d_hasDest = True, d_confirmations = t_confirmations t\<rparr>])
             (outputs H (t_tx t))) in
     (s, alls @ new))"

definition loadUserOutput ::
  "hashes \<Rightarrow> bridge \<Rightarrow> string list \<Rightarrow> destination option \<Rightarrow> bool \<Rightarrow> chainTx \<Rightarrow> OutPoint \<times> TxOut \<Rightarrow>
   pegState \<times> deposit list \<Rightarrow> pegState \<times> deposit list" where
  "loadUserOutput H b listed tagDest tagged t = (\<lambda>(op, out) (s, alls).
     let scr = signers_pkScript H (signers b);
         contribution = (tagged \<or> OutPoint_String op \<in> set listed);
         d = (\<lambda>dest valid hasDest. \<lparr>d_time = t_time t, d_outPoint = op, d_value = Value out, d_dest = dest,
                d_valid = valid, d_hasDest = hasDest, d_confirmations = t_confirmations t\<rparr>) in
     case lookup (depositDest s) (PkScript out) of
       Some dest \<Rightarrow> (s, alls @ [d dest (creditable H b dest (Value out)) True])
     | None \<Rightarrow>
         if PkScript out = scr \<and> contribution then
           (s\<lparr>contributed := contributed s + (if t_confirmations t > 0 then Value out else 0),
              contributions := contributions s @ [\<lparr>u_outPoint = op, u_value = Value out, u_pkScript = PkScript out,
                u_confirmations = t_confirmations t\<rparr>]\<rparr>, alls)
         else if PkScript out = scr then
           (case tagDest of
              None \<Rightarrow> (s, alls @ [d zeroDestination False False])
            | Some dest \<Rightarrow> (s, alls @ [d dest (creditable H b dest (Value out)) True]))
         else (s, alls))"

definition loadDogeTx ::
  "hashes \<Rightarrow> bridge \<Rightarrow> string list \<Rightarrow> OutPoint list \<Rightarrow> chainTx \<Rightarrow> pegState \<times> deposit list \<Rightarrow> pegState \<times> deposit list" where
  "loadDogeTx H b listed pegOuts' t sd =
     (if spendsAny (t_tx t) pegOuts' then loadSignerDogeTx H b t sd
      else foldl (\<lambda>sd o'. loadUserOutput H b listed (parseDestinationTag (t_tx t) tagDeposit) (isContribution (t_tx t)) t o' sd)
             sd (outputs H (t_tx t)))"

text \<open>A refunded deposit is settled; one credited while it was in range is owed to no one.\<close>

definition classify :: "deposit \<Rightarrow> pegState \<Rightarrow> pegState" where
  "classify d s =
     (let refund = get_or (refunded s) (d_outPoint d) zeroHash in
      if refund \<noteq> zeroHash then
        s\<lparr>settled := settled s @ [d],
          pendingRefunds := pendingRefunds s + (if isUnconfirmed s refund \<and> d_confirmations d > 0 then d_value d else 0)\<rparr>
      else if d_valid d \<and> \<not> isCancelled s (d_outPoint d) then s\<lparr>deposits := deposits s @ [d]\<rparr>
      else if get_or (released s) (d_outPoint d) zeroHash \<noteq> zeroHash then s
      else s\<lparr>held := held s @ [d],
             unclaimedOnDoge := unclaimedOnDoge s + (if d_confirmations d > 0 then d_value d else 0)\<rparr>)"

text \<open>Locked DOGE: confirmed peg coins, with those the signers' unconfirmed transactions spend.\<close>

definition addPending :: "(OutPoint, utxo) gomap \<Rightarrow> OutPoint \<Rightarrow> pegState \<Rightarrow> pegState" where
  "addPending confirmedCoin op s = (case lookup confirmedCoin op of
     None \<Rightarrow> s
   | Some c \<Rightarrow> if has_key (pendingCoins s) op then s
       else s\<lparr>pendingCoins := store (pendingCoins s) op c, locked := locked s + u_value c\<rparr>)"

definition loadLocked :: "hashes \<Rightarrow> bridge \<Rightarrow> chainTx list \<Rightarrow> utxo list \<Rightarrow> pegState \<Rightarrow> pegState" where
  "loadLocked H b txs coins s =
     (let inBlocks = filter (\<lambda>u. u_confirmations u > 0) coins;
          s = s\<lparr>lockedUTXOs := coins, locked := locked s + valueOf inBlocks\<rparr>;
          confirmedCoin = foldl (\<lambda>m (op, out, t). store m op \<lparr>u_outPoint = op, u_value = Value out,
             u_pkScript = PkScript out, u_confirmations = t_confirmations t\<rparr>) []
             (pegOutputs H (redeemFor s) (confirmed_in txs));
          s = foldl (\<lambda>s op. addPending confirmedCoin op s) s
             (concat (map (\<lambda>(h, t). map PreviousOutPoint (TxIn (t_tx t))) (unconfirmed s)));
          pegCoins = inBlocks @ map snd (pendingCoins s);
          line = newLineage H txs (signers_pkScript H (signers b)) (max (depositConfirmations b) (confFloor b)) in
      s\<lparr>pegLine := line, pegAnchor := anchorIn H line pegCoins\<rparr>)"

definition loadDoge :: "hashes \<Rightarrow> bridge \<Rightarrow> chain \<Rightarrow> perr + destination list \<Rightarrow> fileRead \<Rightarrow> pegState \<Rightarrow> perr + pegState" where
  "loadDoge H b doge registry listedFile s =
     bindr registry (\<lambda>dests.
     case dogeWatchSet H b dests of (addrs, redeem, dd) \<Rightarrow>
     let s = s\<lparr>redeemFor := redeem, depositDest := dd\<rparr> in
     bindr (txsFor doge addrs) (\<lambda>txs.
     let s = s\<lparr>dogeTxs := txs\<rparr> in
     bindr (case conflictedFor doge of None \<Rightarrow> Inr [] | Some f \<Rightarrow> f addrs) (\<lambda>conflicted.
     let s = s\<lparr>dogeConflicted := conflicted\<rparr>; outs = map fst (pegOutputs H redeem txs) in
     bindr (listedContributions listedFile) (\<lambda>listed.
     case foldl (\<lambda>sd t. loadDogeTx H b listed outs t sd) (s, []) txs of (s, alls) \<Rightarrow>
     let s = foldl (\<lambda>s d. classify d s) s alls in
     bindr (unspent doge addrs 0) (\<lambda>coins. Inr (loadLocked H b txs coins s))))))"

definition load :: "hashes \<Rightarrow> bridge \<Rightarrow> chain \<Rightarrow> chain \<Rightarrow> perr + destination list \<Rightarrow> fileRead \<Rightarrow> perr + pegState" where
  "load H b vm doge registry listedFile =
     bindr (loadVm H b vm emptyState) (\<lambda>s.
     bindr (loadDoge H b doge registry listedFile s) (\<lambda>s.
     Inr (s\<lparr>deposits := sort_key (\<lambda>d. - d_confirmations d) (deposits s),
            pegOuts := sort_key (\<lambda>p. - p_confirmations p) (pegOuts s)\<rparr>)))"

section \<open>The audit\<close>

record audit =
  Circulating :: int
  PendingPegIns :: int
  PendingPegOuts :: int
  Locked :: int
  Surplus :: int
  Req :: int
  UnclaimedOnDoge :: int
  UnclaimedOnVM :: int
  Contributed :: int
  PendingRefunds :: int
  PendingFees :: int

definition pegInsPending :: "pegState \<Rightarrow> int" where
  "pegInsPending s = foldl (\<lambda>n d. if \<not> has_key (released s) (d_outPoint d) \<and> d_confirmations d > 0 then n + d_value d else n) 0 (deposits s)"

definition pegOutsPending :: "pegState \<Rightarrow> int" where
  "pegOutsPending s = foldl (\<lambda>n p. case lookup (paid s) (p_txid p) of
     None \<Rightarrow> n + p_value p
   | Some payment \<Rightarrow> if isUnconfirmed s payment then n + p_value p else n) 0 (pegOuts s)"

definition audit_of :: "pegState \<Rightarrow> audit" where
  "audit_of s =
     (let circ = reserveCreated s - reserveUnspent s;
          req = circ + pegInsPending s + pegOutsPending s + unclaimedOnDoge s + unclaimedOnVM s
                + pendingRefunds s + pendingFees s in
      \<lparr>Circulating = circ, PendingPegIns = pegInsPending s, PendingPegOuts = pegOutsPending s, Locked = locked s,
       Surplus = locked s - req, Req = req, UnclaimedOnDoge = unclaimedOnDoge s, UnclaimedOnVM = unclaimedOnVM s,
       Contributed = contributed s, PendingRefunds = pendingRefunds s, PendingFees = pendingFees s\<rparr>)"

definition solvent :: "audit \<Rightarrow> bool" where
  "solvent a \<longleftrightarrow> Surplus a \<ge> 0 \<and> Circulating a \<ge> 0"

section \<open>What each part of the reading leaves alone\<close>

lemma loadPegOut_simps [simp]:
  "released (loadPegOut H b scr n t s) = released s" "vmTxs (loadPegOut H b scr n t s) = vmTxs s"
  "cancelled (loadPegOut H b scr n t s) = cancelled s" "refunded (loadPegOut H b scr n t s) = refunded s"
  "paid (loadPegOut H b scr n t s) = paid s" "unconfirmed (loadPegOut H b scr n t s) = unconfirmed s"
  "deposits (loadPegOut H b scr n t s) = deposits s" "unclaimedOnDoge (loadPegOut H b scr n t s) = unclaimedOnDoge s"
  "pendingRefunds (loadPegOut H b scr n t s) = pendingRefunds s" "pendingCoins (loadPegOut H b scr n t s) = pendingCoins s"
  "pendingFees (loadPegOut H b scr n t s) = pendingFees s" "locked (loadPegOut H b scr n t s) = locked s"
  by (simp_all add: loadPegOut_def Let_def)

lemma loadSignerVmTx_simps [simp]:
  "vmTxs (loadSignerVmTx H t s) = vmTxs s" "refunded (loadSignerVmTx H t s) = refunded s"
  "paid (loadSignerVmTx H t s) = paid s" "unconfirmed (loadSignerVmTx H t s) = unconfirmed s"
  "deposits (loadSignerVmTx H t s) = deposits s" "unclaimedOnDoge (loadSignerVmTx H t s) = unclaimedOnDoge s"
  "pendingRefunds (loadSignerVmTx H t s) = pendingRefunds s" "pendingCoins (loadSignerVmTx H t s) = pendingCoins s"
  "pendingFees (loadSignerVmTx H t s) = pendingFees s" "locked (loadSignerVmTx H t s) = locked s"
  "released (loadSignerVmTx H t s) = (case parseRelease (t_tx t) of None \<Rightarrow> released s
     | Some d \<Rightarrow> store (released s) d (TxHash H (t_tx t)))"
  by (simp_all add: loadSignerVmTx_def Let_def split: option.split)

lemma loadVmTx_simps [simp]:
  "vmTxs (loadVmTx H b scr outs t s) = vmTxs s" "refunded (loadVmTx H b scr outs t s) = refunded s"
  "paid (loadVmTx H b scr outs t s) = paid s" "unconfirmed (loadVmTx H b scr outs t s) = unconfirmed s"
  "deposits (loadVmTx H b scr outs t s) = deposits s" "unclaimedOnDoge (loadVmTx H b scr outs t s) = unclaimedOnDoge s"
  "pendingRefunds (loadVmTx H b scr outs t s) = pendingRefunds s" "pendingCoins (loadVmTx H b scr outs t s) = pendingCoins s"
  "pendingFees (loadVmTx H b scr outs t s) = pendingFees s" "locked (loadVmTx H b scr outs t s) = locked s"
  "released (loadVmTx H b scr outs t s) = (if \<not> isCoinbase (t_tx t) \<and> spendsAny (t_tx t) outs
     then released (loadSignerVmTx H t s) else released s)"
  by (simp_all add: loadVmTx_def Let_def)

text \<open>A measure of a state that no step of a fold changes is unchanged by the fold.\<close>

lemma foldl_keeps: "(\<And>s x. x \<in> set xs \<Longrightarrow> m (f s x) = m s) \<Longrightarrow> m (foldl f s xs) = m s"
  by (induction xs arbitrary: s) simp_all

lemma foldl_invariant: "P s \<Longrightarrow> (\<And>s x. x \<in> set xs \<Longrightarrow> P s \<Longrightarrow> P (f s x)) \<Longrightarrow> P (foldl f s xs)"
  by (induction xs arbitrary: s) simp_all

lemma loadVm_keeps:
  assumes "loadVm H b vm s = Inr s'"
  shows "refunded s' = refunded s" "paid s' = paid s" "unconfirmed s' = unconfirmed s" "deposits s' = deposits s"
    "unclaimedOnDoge s' = unclaimedOnDoge s" "pendingRefunds s' = pendingRefunds s" "pendingCoins s' = pendingCoins s"
    "pendingFees s' = pendingFees s" "locked s' = locked s"
  using assms
  by (auto simp: loadVm_def Let_def loadReserve_def bindr_Inr_iff foldl_keeps [where m = refunded]
      foldl_keeps [where m = paid] foldl_keeps [where m = unconfirmed] foldl_keeps [where m = deposits]
      foldl_keeps [where m = unclaimedOnDoge] foldl_keeps [where m = pendingRefunds] foldl_keeps [where m = pendingCoins]
      foldl_keeps [where m = pendingFees] foldl_keeps [where m = locked])

definition release_known :: "hashes \<Rightarrow> bytes \<Rightarrow> chainTx list \<Rightarrow> OutPoint \<Rightarrow> bytes \<Rightarrow> bool" where
  "release_known H scr txs op h \<longleftrightarrow> (\<exists>t \<in> set txs. TxHash H (t_tx t) = h \<and> parseRelease (t_tx t) = Some op
     \<and> \<not> isCoinbase (t_tx t) \<and> spendsAny (t_tx t) (reserveOutputs H scr txs))"

lemma loadVm_released:
  assumes "loadVm H b vm emptyState = Inr s" "lookup (released s) op = Some h"
  shows "release_known H (signers_pkScript H (signers b)) (vmTxs s) op h"
proof -
  let ?scr = "signers_pkScript H (signers b)"
  obtain txs coins where t: "txsFor vm [?scr] = Inr txs" and s: "s = loadReserve H ?scr (reserveOutputs H ?scr txs) txs coins
      (foldl (\<lambda>s t. loadVmTx H b ?scr (reserveOutputs H ?scr txs) t s) (emptyState\<lparr>vmTxs := txs\<rparr>) txs)"
    using assms(1) by (auto simp: loadVm_def Let_def bindr_Inr_iff)
  let ?f = "foldl (\<lambda>s t. loadVmTx H b ?scr (reserveOutputs H ?scr txs) t s) (emptyState\<lparr>vmTxs := txs\<rparr>) txs"
  have "\<forall>op h. lookup (released ?f) op = Some h \<longrightarrow> release_known H ?scr txs op h"
    by (rule foldl_invariant [where P = "\<lambda>s. \<forall>op h. lookup (released s) op = Some h \<longrightarrow> release_known H ?scr txs op h"])
       (auto simp: emptyState_def release_known_def split: option.splits if_splits)
  moreover have "vmTxs ?f = txs" by (simp add: foldl_keeps [where m = vmTxs])
  ultimately show ?thesis using assms(2) by (simp add: s loadReserve_def Let_def)
qed

lemma loadSignerDogeTx_simps [simp]:
  "released (fst (loadSignerDogeTx H b t sd)) = released (fst sd)" "vmTxs (fst (loadSignerDogeTx H b t sd)) = vmTxs (fst sd)"
  "cancelled (fst (loadSignerDogeTx H b t sd)) = cancelled (fst sd)" "depositDest (fst (loadSignerDogeTx H b t sd)) = depositDest (fst sd)"
  "deposits (fst (loadSignerDogeTx H b t sd)) = deposits (fst sd)" "unclaimedOnDoge (fst (loadSignerDogeTx H b t sd)) = unclaimedOnDoge (fst sd)"
  "pendingRefunds (fst (loadSignerDogeTx H b t sd)) = pendingRefunds (fst sd)" "pendingFees (fst (loadSignerDogeTx H b t sd)) = pendingFees (fst sd)"
  "reserveCreated (fst (loadSignerDogeTx H b t sd)) = reserveCreated (fst sd)" "reserveUnspent (fst (loadSignerDogeTx H b t sd)) = reserveUnspent (fst sd)"
  by (cases sd; simp add: loadSignerDogeTx_def Let_def split: option.split)+

lemma loadUserOutput_simps [simp]:
  "released (fst (loadUserOutput H b l td c t x sd)) = released (fst sd)" "vmTxs (fst (loadUserOutput H b l td c t x sd)) = vmTxs (fst sd)"
  "cancelled (fst (loadUserOutput H b l td c t x sd)) = cancelled (fst sd)" "depositDest (fst (loadUserOutput H b l td c t x sd)) = depositDest (fst sd)"
  "deposits (fst (loadUserOutput H b l td c t x sd)) = deposits (fst sd)" "unclaimedOnDoge (fst (loadUserOutput H b l td c t x sd)) = unclaimedOnDoge (fst sd)"
  "pendingRefunds (fst (loadUserOutput H b l td c t x sd)) = pendingRefunds (fst sd)" "pendingFees (fst (loadUserOutput H b l td c t x sd)) = pendingFees (fst sd)"
  "paid (fst (loadUserOutput H b l td c t x sd)) = paid (fst sd)" "refunded (fst (loadUserOutput H b l td c t x sd)) = refunded (fst sd)"
  "unconfirmed (fst (loadUserOutput H b l td c t x sd)) = unconfirmed (fst sd)"
  by (cases sd; cases x; simp add: loadUserOutput_def Let_def split: option.split)+

lemma loadDogeTx_simps [simp]:
  "released (fst (loadDogeTx H b l outs t sd)) = released (fst sd)" "vmTxs (fst (loadDogeTx H b l outs t sd)) = vmTxs (fst sd)"
  "cancelled (fst (loadDogeTx H b l outs t sd)) = cancelled (fst sd)" "depositDest (fst (loadDogeTx H b l outs t sd)) = depositDest (fst sd)"
  "deposits (fst (loadDogeTx H b l outs t sd)) = deposits (fst sd)" "unclaimedOnDoge (fst (loadDogeTx H b l outs t sd)) = unclaimedOnDoge (fst sd)"
  "pendingRefunds (fst (loadDogeTx H b l outs t sd)) = pendingRefunds (fst sd)" "pendingFees (fst (loadDogeTx H b l outs t sd)) = pendingFees (fst sd)"
  by (simp_all add: loadDogeTx_def foldl_keeps [where m = "\<lambda>sd. released (fst sd)"] foldl_keeps [where m = "\<lambda>sd. vmTxs (fst sd)"]
      foldl_keeps [where m = "\<lambda>sd. cancelled (fst sd)"] foldl_keeps [where m = "\<lambda>sd. depositDest (fst sd)"]
      foldl_keeps [where m = "\<lambda>sd. deposits (fst sd)"] foldl_keeps [where m = "\<lambda>sd. unclaimedOnDoge (fst sd)"]
      foldl_keeps [where m = "\<lambda>sd. pendingRefunds (fst sd)"] foldl_keeps [where m = "\<lambda>sd. pendingFees (fst sd)"])

lemma classify_simps [simp]:
  "released (classify d s) = released s" "vmTxs (classify d s) = vmTxs s" "cancelled (classify d s) = cancelled s"
  "refunded (classify d s) = refunded s" "unconfirmed (classify d s) = unconfirmed s" "paid (classify d s) = paid s"
  "pendingFees (classify d s) = pendingFees s" "dogeTxs (classify d s) = dogeTxs s"
  by (simp_all add: classify_def Let_def)

lemma addPending_simps [simp]:
  "released (addPending m op s) = released s" "vmTxs (addPending m op s) = vmTxs s" "deposits (addPending m op s) = deposits s"
  "refunded (addPending m op s) = refunded s" "unconfirmed (addPending m op s) = unconfirmed s" "paid (addPending m op s) = paid s"
  "unclaimedOnDoge (addPending m op s) = unclaimedOnDoge s" "pendingRefunds (addPending m op s) = pendingRefunds s"
  "dogeTxs (addPending m op s) = dogeTxs s"
  by (simp_all add: addPending_def split: option.split)

lemma loadLocked_simps [simp]:
  "released (loadLocked H b txs coins s) = released s" "vmTxs (loadLocked H b txs coins s) = vmTxs s"
  "deposits (loadLocked H b txs coins s) = deposits s" "refunded (loadLocked H b txs coins s) = refunded s"
  "unconfirmed (loadLocked H b txs coins s) = unconfirmed s" "paid (loadLocked H b txs coins s) = paid s"
  "unclaimedOnDoge (loadLocked H b txs coins s) = unclaimedOnDoge s" "pendingRefunds (loadLocked H b txs coins s) = pendingRefunds s"
  "dogeTxs (loadLocked H b txs coins s) = dogeTxs s"
  by (simp_all add: loadLocked_def Let_def foldl_keeps [where m = released] foldl_keeps [where m = vmTxs]
      foldl_keeps [where m = deposits] foldl_keeps [where m = refunded] foldl_keeps [where m = unconfirmed]
      foldl_keeps [where m = paid] foldl_keeps [where m = unclaimedOnDoge] foldl_keeps [where m = pendingRefunds]
      foldl_keeps [where m = dogeTxs])

section \<open>Tags count only on transactions that spend the peg\<close>

definition payment_known :: "hashes \<Rightarrow> (bytes, bytes) gomap \<Rightarrow> chainTx list \<Rightarrow> bytes \<Rightarrow> bytes \<Rightarrow> bool" where
  "payment_known H redeem txs request h \<longleftrightarrow> (\<exists>t \<in> set txs. TxHash H (t_tx t) = h \<and> parsePayment (t_tx t) = Some request
     \<and> spendsAny (t_tx t) (map fst (pegOutputs H redeem txs)))"

definition refund_known :: "hashes \<Rightarrow> (bytes, bytes) gomap \<Rightarrow> chainTx list \<Rightarrow> OutPoint \<Rightarrow> bytes \<Rightarrow> bool" where
  "refund_known H redeem txs op h \<longleftrightarrow> (\<exists>t \<in> set txs. TxHash H (t_tx t) = h \<and> parseRefund (t_tx t) = Some op
     \<and> spendsAny (t_tx t) (map fst (pegOutputs H redeem txs)))"

definition doge_known :: "hashes \<Rightarrow> (bytes, bytes) gomap \<Rightarrow> chainTx list \<Rightarrow> pegState \<Rightarrow> bool" where
  "doge_known H redeem txs s \<longleftrightarrow> (\<forall>q h. lookup (paid s) q = Some h \<longrightarrow> payment_known H redeem txs q h)
     \<and> (\<forall>op h. lookup (refunded s) op = Some h \<longrightarrow> refund_known H redeem txs op h)"

lemma doge_known_cong: "paid s = paid s' \<Longrightarrow> refunded s = refunded s' \<Longrightarrow> doge_known H r txs s = doge_known H r txs s'"
  by (simp add: doge_known_def)

lemma doge_known_signer:
  assumes "doge_known H r txs (fst sd)" "t \<in> set txs" "spendsAny (t_tx t) (map fst (pegOutputs H r txs))"
  shows "doge_known H r txs (fst (loadSignerDogeTx H b t sd))"
  using assms
  by (cases sd) (auto simp: loadSignerDogeTx_def Let_def doge_known_def payment_known_def refund_known_def split: option.splits if_splits)

lemma doge_known_step:
  assumes "doge_known H r txs (fst sd)" "t \<in> set txs"
  shows "doge_known H r txs (fst (loadDogeTx H b l (map fst (pegOutputs H r txs)) t sd))"
proof (cases "spendsAny (t_tx t) (map fst (pegOutputs H r txs))")
  case True
  then show ?thesis using doge_known_signer [OF assms] by (simp add: loadDogeTx_def)
next
  case False
  let ?f = "foldl (\<lambda>sd o'. loadUserOutput H b l (parseDestinationTag (t_tx t) tagDeposit) (isContribution (t_tx t)) t o' sd)"
  have "paid (fst (?f sd xs)) = paid (fst sd)" "refunded (fst (?f sd xs)) = refunded (fst sd)" for xs
    by (simp_all add: foldl_keeps [where m = "\<lambda>sd. paid (fst sd)"] foldl_keeps [where m = "\<lambda>sd. refunded (fst sd)"])
  then show ?thesis using assms(1) False by (simp add: loadDogeTx_def doge_known_def)
qed

section \<open>The deposits read\<close>

definition readDogeTxs :: "hashes \<Rightarrow> bridge \<Rightarrow> string list \<Rightarrow> pegState \<Rightarrow> pegState \<times> deposit list" where
  "readDogeTxs H b listed s =
     foldl (\<lambda>sd t. loadDogeTx H b listed (map fst (pegOutputs H (redeemFor s) (dogeTxs s))) t sd) (s, []) (dogeTxs s)"

lemma readDogeTxs_known:
  assumes "paid s = []" "refunded s = []"
  shows "doge_known H (redeemFor s) (dogeTxs s) (fst (readDogeTxs H b l s))"
  unfolding readDogeTxs_def
  by (rule foldl_invariant) (use assms in \<open>auto simp: doge_known_def [of _ _ _ s] intro: doge_known_step\<close>)

lemma readDogeTxs_keeps:
  "released (fst (readDogeTxs H b l s)) = released s" "deposits (fst (readDogeTxs H b l s)) = deposits s"
  "unclaimedOnDoge (fst (readDogeTxs H b l s)) = unclaimedOnDoge s" "pendingRefunds (fst (readDogeTxs H b l s)) = pendingRefunds s"
  "cancelled (fst (readDogeTxs H b l s)) = cancelled s" "vmTxs (fst (readDogeTxs H b l s)) = vmTxs s"
  by (simp_all add: readDogeTxs_def foldl_keeps [where m = "\<lambda>sd. released (fst sd)"] foldl_keeps [where m = "\<lambda>sd. vmTxs (fst sd)"]
      foldl_keeps [where m = "\<lambda>sd. cancelled (fst sd)"]
      foldl_keeps [where m = "\<lambda>sd. deposits (fst sd)"] foldl_keeps [where m = "\<lambda>sd. unclaimedOnDoge (fst sd)"]
      foldl_keeps [where m = "\<lambda>sd. pendingRefunds (fst sd)"])

text \<open>
  A deposit is owed while it is in a block and neither credited nor refunded by a
  transaction in a block.
\<close>

definition owed :: "pegState \<Rightarrow> deposit \<Rightarrow> bool" where
  "owed s d \<longleftrightarrow> d_confirmations d > 0 \<and> (case lookup (refunded s) (d_outPoint d) of
     Some h \<Rightarrow> isUnconfirmed s h
   | None \<Rightarrow> lookup (released s) (d_outPoint d) = None)"

definition owedValue :: "pegState \<Rightarrow> deposit list \<Rightarrow> int" where
  "owedValue s ds = sum_list (map (\<lambda>d. if owed s d then d_value d else 0) ds)"

definition no_zero :: "pegState \<Rightarrow> bool" where
  "no_zero s \<longleftrightarrow> (\<forall>op. lookup (released s) op \<noteq> Some zeroHash) \<and> (\<forall>op. lookup (refunded s) op \<noteq> Some zeroHash)"

lemma pegInsPending_sum:
  "pegInsPending s = sum_list (map (\<lambda>d. if \<not> has_key (released s) (d_outPoint d) \<and> d_confirmations d > 0 then d_value d else 0) (deposits s))"
proof -
  have "foldl (\<lambda>n d. if P d then n + f d else n) a ds = a + sum_list (map (\<lambda>d. if P d then f d else 0) ds)"
    for P and f :: "deposit \<Rightarrow> int" and a ds by (induction ds arbitrary: a) simp_all
  then show ?thesis by (simp add: pegInsPending_def)
qed

definition owing :: "pegState \<Rightarrow> int" where
  "owing s = pegInsPending s + unclaimedOnDoge s + pendingRefunds s"

lemma classify_owing: "no_zero s \<Longrightarrow> owing (classify d s) = owing s + (if owed s d then d_value d else 0)"
  by (cases "lookup (refunded s) (d_outPoint d)"; cases "lookup (released s) (d_outPoint d)")
     (auto simp: owing_def classify_def Let_def pegInsPending_sum owed_def no_zero_def get_or_def has_key_def isUnconfirmed_def)

lemma owed_classify [simp]: "owed (classify d s) = owed s" "no_zero (classify d s) = no_zero s"
  by (auto simp: fun_eq_iff owed_def no_zero_def isUnconfirmed_def split: option.splits)

lemma classify_all_owing: "no_zero s \<Longrightarrow> owing (foldl (\<lambda>s d. classify d s) s ds) = owing s + owedValue s ds"
  by (induction ds arbitrary: s) (simp_all add: classify_owing owedValue_def)

lemma classify_all_keeps [simp]:
  "released (foldl (\<lambda>s d. classify d s) s ds) = released s" "refunded (foldl (\<lambda>s d. classify d s) s ds) = refunded s"
  "unconfirmed (foldl (\<lambda>s d. classify d s) s ds) = unconfirmed s" "paid (foldl (\<lambda>s d. classify d s) s ds) = paid s"
  "vmTxs (foldl (\<lambda>s d. classify d s) s ds) = vmTxs s" "dogeTxs (foldl (\<lambda>s d. classify d s) s ds) = dogeTxs s"
  by (simp_all add: foldl_keeps [where m = released] foldl_keeps [where m = refunded] foldl_keeps [where m = unconfirmed]
      foldl_keeps [where m = paid] foldl_keeps [where m = vmTxs] foldl_keeps [where m = dogeTxs])

text \<open>What \<open>load\<close> returns, taken apart.\<close>

lemma load_InrE:
  assumes "load H b vm doge registry f = Inr s"
  obtains s1 s2 s3 dests txs listed coins conflicted addrs redeem dd where
    "loadVm H b vm emptyState = Inr s1" "registry = Inr dests" "dogeWatchSet H b dests = (addrs, redeem, dd)"
    "txsFor doge addrs = Inr txs" "listedContributions f = Inr listed"
    "s2 = s1\<lparr>redeemFor := redeem, depositDest := dd, dogeTxs := txs, dogeConflicted := conflicted\<rparr>"
    "s3 = foldl (\<lambda>s d. classify d s) (fst (readDogeTxs H b listed s2)) (snd (readDogeTxs H b listed s2))"
    "s = (loadLocked H b txs coins s3)\<lparr>deposits := sort_key (\<lambda>d. - d_confirmations d) (deposits s3),
       pegOuts := sort_key (\<lambda>p. - p_confirmations p) (pegOuts (loadLocked H b txs coins s3))\<rparr>"
proof -
  from assms obtain s1 s4 where a: "loadVm H b vm emptyState = Inr s1" "loadDoge H b doge registry f s1 = Inr s4"
      "s = s4\<lparr>deposits := sort_key (\<lambda>d. - d_confirmations d) (deposits s4), pegOuts := sort_key (\<lambda>p. - p_confirmations p) (pegOuts s4)\<rparr>"
    by (auto simp: load_def bindr_Inr_iff)
  from a(2) obtain dests where d: "registry = Inr dests" by (auto simp: loadDoge_def bindr_Inr_iff)
  obtain addrs redeem dd where w: "dogeWatchSet H b dests = (addrs, redeem, dd)" by (metis prod_cases3)
  from a(2) obtain txs conflicted listed coins where t: "txsFor doge addrs = Inr txs" "listedContributions f = Inr listed"
      "s4 = loadLocked H b txs coins (foldl (\<lambda>s d. classify d s)
        (fst (readDogeTxs H b listed (s1\<lparr>redeemFor := redeem, depositDest := dd, dogeTxs := txs, dogeConflicted := conflicted\<rparr>)))
        (snd (readDogeTxs H b listed (s1\<lparr>redeemFor := redeem, depositDest := dd, dogeTxs := txs, dogeConflicted := conflicted\<rparr>))))"
    by (auto simp: loadDoge_def Let_def bindr_Inr_iff d w readDogeTxs_def case_prod_beta)
  show thesis by (rule that [OF a(1) d w t(1,2) refl refl]) (simp add: a(3) t(3))
qed

lemma owing_sort: "owing (s\<lparr>deposits := sort_key k ds, pegOuts := ps\<rparr>) = owing (s\<lparr>deposits := ds\<rparr>)" for k :: "deposit \<Rightarrow> int"
proof -
  have "sum_list (map f (sort_key k ds)) = sum_list (map f ds)" for f :: "deposit \<Rightarrow> int"
    by (metis mset_map mset_sort sum_mset_sum_list)
  then show ?thesis by (simp add: owing_def pegInsPending_sum)
qed

section \<open>The whole reading\<close>

lemma read_inputs_keeps [simp]:
  "redeemFor (fst (loadSignerDogeTx H b t sd)) = redeemFor (fst sd)" "dogeTxs (fst (loadSignerDogeTx H b t sd)) = dogeTxs (fst sd)"
  "redeemFor (fst (loadUserOutput H b l td c t x sd)) = redeemFor (fst sd)" "dogeTxs (fst (loadUserOutput H b l td c t x sd)) = dogeTxs (fst sd)"
  "redeemFor (classify d s) = redeemFor s" "depositDest (classify d s) = depositDest s"
  "redeemFor (addPending m op s) = redeemFor s" "depositDest (addPending m op s) = depositDest s"
  by (cases sd; cases x; simp add: loadSignerDogeTx_def loadUserOutput_def classify_def addPending_def Let_def split: option.split)+

lemma loadDogeTx_inputs [simp]:
  "redeemFor (fst (loadDogeTx H b l outs t sd)) = redeemFor (fst sd)" "dogeTxs (fst (loadDogeTx H b l outs t sd)) = dogeTxs (fst sd)"
  by (simp_all add: loadDogeTx_def foldl_keeps [where m = "\<lambda>sd. redeemFor (fst sd)"] foldl_keeps [where m = "\<lambda>sd. dogeTxs (fst sd)"])

lemma readDogeTxs_inputs [simp]:
  "redeemFor (fst (readDogeTxs H b l s)) = redeemFor s" "dogeTxs (fst (readDogeTxs H b l s)) = dogeTxs s"
  "depositDest (fst (readDogeTxs H b l s)) = depositDest s"
  by (simp_all add: readDogeTxs_def foldl_keeps [where m = "\<lambda>sd. redeemFor (fst sd)"] foldl_keeps [where m = "\<lambda>sd. dogeTxs (fst sd)"]
      foldl_keeps [where m = "\<lambda>sd. depositDest (fst sd)"])

lemma classify_all_inputs [simp]:
  "redeemFor (foldl (\<lambda>s d. classify d s) s ds) = redeemFor s" "depositDest (foldl (\<lambda>s d. classify d s) s ds) = depositDest s"
  by (simp_all add: foldl_keeps [where m = redeemFor] foldl_keeps [where m = depositDest])

lemma loadLocked_inputs [simp]:
  "redeemFor (loadLocked H b txs coins s) = redeemFor s" "depositDest (loadLocked H b txs coins s) = depositDest s"
  by (simp_all add: loadLocked_def Let_def foldl_keeps [where m = redeemFor] foldl_keeps [where m = depositDest])

text \<open>The deposits read depend on the transactions and the watched scripts alone.\<close>

lemma snd_loadSignerDogeTx_cong:
  "depositDest (fst sd) = depositDest (fst sd') \<Longrightarrow> snd sd = snd sd' \<Longrightarrow> snd (loadSignerDogeTx H b t sd) = snd (loadSignerDogeTx H b t sd')"
  by (cases sd; cases sd') (simp add: loadSignerDogeTx_def Let_def split: option.split)

lemma snd_loadUserOutput_cong:
  "depositDest (fst sd) = depositDest (fst sd') \<Longrightarrow> snd sd = snd sd' \<Longrightarrow> snd (loadUserOutput H b l td c t x sd) = snd (loadUserOutput H b l td c t x sd')"
  by (cases sd; cases sd'; cases x) (simp add: loadUserOutput_def Let_def split: option.split)

definition same_read :: "pegState \<times> deposit list \<Rightarrow> pegState \<times> deposit list \<Rightarrow> bool" where
  "same_read a c \<longleftrightarrow> depositDest (fst a) = depositDest (fst c) \<and> snd a = snd c"

lemma same_read_foldl: "(\<And>a c x. same_read a c \<Longrightarrow> same_read (f a x) (f c x)) \<Longrightarrow> same_read a c \<Longrightarrow> same_read (foldl f a xs) (foldl f c xs)"
  by (induction xs arbitrary: a c) simp_all

lemma same_read_step:
  assumes "same_read a c"
  shows "same_read (loadDogeTx H b l outs t a) (loadDogeTx H b l outs t c)"
proof (cases "spendsAny (t_tx t) outs")
  case True
  then show ?thesis using assms snd_loadSignerDogeTx_cong [of a c H b t] by (simp add: loadDogeTx_def same_read_def)
next
  case False
  have "same_read (loadUserOutput H b l td cn t x a) (loadUserOutput H b l td cn t x c)" if "same_read a c" for td cn x a c
    using that snd_loadUserOutput_cong [of a c H b l td cn t x] by (simp add: same_read_def)
  then show ?thesis using False assms by (simp add: loadDogeTx_def same_read_foldl)
qed

lemma readDogeTxs_cong:
  assumes "redeemFor s = redeemFor s'" "dogeTxs s = dogeTxs s'" "depositDest s = depositDest s'"
  shows "snd (readDogeTxs H b l s) = snd (readDogeTxs H b l s')"
proof -
  have "same_read (readDogeTxs H b l s) (readDogeTxs H b l s')"
    unfolding readDogeTxs_def assms by (rule same_read_foldl, erule same_read_step) (simp add: same_read_def assms(3))
  then show ?thesis by (simp add: same_read_def)
qed

lemma emptyState_simps [simp]:
  "released emptyState = []" "refunded emptyState = []" "paid emptyState = []" "deposits emptyState = []" "unconfirmed emptyState = []"
  "unclaimedOnDoge emptyState = 0" "pendingRefunds emptyState = 0" "pendingFees emptyState = 0" "locked emptyState = 0"
  by (simp_all add: emptyState_def)

lemma load_released:
  assumes "load H b vm doge registry f = Inr s" "lookup (released s) op = Some h"
  shows "release_known H (signers_pkScript H (signers b)) (vmTxs s) op h"
  using assms(1)
proof (rule load_InrE)
  fix s1 s2 s3 dests txs listed coins conflicted addrs redeem dd
  assume 1: "loadVm H b vm emptyState = Inr s1"
    and 2: "s2 = s1\<lparr>redeemFor := redeem, depositDest := dd, dogeTxs := txs, dogeConflicted := conflicted\<rparr>"
    and 3: "s3 = foldl (\<lambda>s d. classify d s) (fst (readDogeTxs H b listed s2)) (snd (readDogeTxs H b listed s2))"
    and 4: "s = (loadLocked H b txs coins s3)\<lparr>deposits := sort_key (\<lambda>d. - d_confirmations d) (deposits s3),
       pegOuts := sort_key (\<lambda>p. - p_confirmations p) (pegOuts (loadLocked H b txs coins s3))\<rparr>"
  have "released s = released s1" "vmTxs s = vmTxs s1"
    by (simp_all add: 4 3 2 readDogeTxs_keeps)
  then show ?thesis using loadVm_released [OF 1] assms(2) by simp
qed

lemma load_doge_known:
  assumes "load H b vm doge registry f = Inr s"
  shows "doge_known H (redeemFor s) (dogeTxs s) s"
  using assms
proof (rule load_InrE)
  fix s1 s2 s3 dests txs listed coins conflicted addrs redeem dd
  assume 1: "loadVm H b vm emptyState = Inr s1"
    and 2: "s2 = s1\<lparr>redeemFor := redeem, depositDest := dd, dogeTxs := txs, dogeConflicted := conflicted\<rparr>"
    and 3: "s3 = foldl (\<lambda>s d. classify d s) (fst (readDogeTxs H b listed s2)) (snd (readDogeTxs H b listed s2))"
    and 4: "s = (loadLocked H b txs coins s3)\<lparr>deposits := sort_key (\<lambda>d. - d_confirmations d) (deposits s3),
       pegOuts := sort_key (\<lambda>p. - p_confirmations p) (pegOuts (loadLocked H b txs coins s3))\<rparr>"
  have "paid s2 = []" "refunded s2 = []" using loadVm_keeps [OF 1] by (simp_all add: 2)
  from readDogeTxs_known [OF this, of H b listed] show ?thesis
    by (simp add: 4 3 doge_known_def)
qed

lemma load_owing:
  assumes "load H b vm doge registry f = Inr s" "listedContributions f = Inr listed"
    and nz: "\<forall>t \<in> set (vmTxs s) \<union> set (dogeTxs s). TxHash H (t_tx t) \<noteq> zeroHash"
  shows "owing s = owedValue s (snd (readDogeTxs H b listed s))"
  using assms(1)
proof (rule load_InrE)
  fix s1 s2 s3 dests txs listed' coins conflicted addrs redeem dd
  assume 1: "loadVm H b vm emptyState = Inr s1" and l: "listedContributions f = Inr listed'"
    and 2: "s2 = s1\<lparr>redeemFor := redeem, depositDest := dd, dogeTxs := txs, dogeConflicted := conflicted\<rparr>"
    and 3: "s3 = foldl (\<lambda>s d. classify d s) (fst (readDogeTxs H b listed' s2)) (snd (readDogeTxs H b listed' s2))"
    and 4: "s = (loadLocked H b txs coins s3)\<lparr>deposits := sort_key (\<lambda>d. - d_confirmations d) (deposits s3),
       pegOuts := sort_key (\<lambda>p. - p_confirmations p) (pegOuts (loadLocked H b txs coins s3))\<rparr>"
  have l: "listed' = listed" using l assms(2) by simp
  let ?r = "fst (readDogeTxs H b listed s2)" and ?ds = "snd (readDogeTxs H b listed s2)"
  have f: "released s = released ?r" "refunded s = refunded ?r" "unconfirmed s = unconfirmed ?r"
    by (simp_all add: 4 3 l)
  have nzs: "no_zero s"
    using load_released [OF assms(1)] load_doge_known [OF assms(1)] nz
    by (fastforce simp: no_zero_def release_known_def doge_known_def refund_known_def)
  then have nzr: "no_zero ?r" by (simp add: no_zero_def f)
  have "owing s = owing s3" by (simp add: 4 owing_sort) (simp add: owing_def pegInsPending_def)
  also have "\<dots> = owing ?r + owedValue ?r ?ds" using classify_all_owing [OF nzr] by (simp add: 3 l)
  also have "owing ?r = 0"
    using loadVm_keeps [OF 1] by (simp add: owing_def pegInsPending_def readDogeTxs_keeps 2)
  also have "owedValue ?r ?ds = owedValue s ?ds"
    unfolding owedValue_def owed_def isUnconfirmed_def f ..
  also have "?ds = snd (readDogeTxs H b listed s)"
    by (rule readDogeTxs_cong) (simp_all add: 4 3 l)
  finally show ?thesis by simp
qed

section \<open>A sample peg\<close>

text \<open>A registered destination's personal deposit, and a tagged deposit at the shared address.\<close>

definition sampleDepositTx :: chainTx where
  "sampleDepositTx = \<lparr>t_tx = \<lparr>Version = 1, TxIn = [NewTxIn otherCoin [] []],
     TxOut = [NewTxOut 700000000 samplePeg, NewTxOut 0 (OP_RETURN # pushBytes (encodeDestination tagDeposit sampleDest)),
              NewTxOut 300000000 (p2shScript sampleHashes (depositRedeemScript sampleSigners sampleDest))], LockTime = 0\<rparr>,
     t_confirmations = 25, t_time = 3000\<rparr>"

definition sampleDoge :: chain where
  "sampleDoge = \<lparr>txsFor = (\<lambda>addrs. Inr [sampleDepositTx]), unspent = (\<lambda>addrs n. Inr []), conflictedFor = None, inBlock = None, inUTXOSet = None\<rparr>"

definition sampleVmRelease :: chainTx where
  "sampleVmRelease = \<lparr>t_tx = \<lparr>Version = 1, TxIn = [NewTxIn sampleCoin [] []],
     TxOut = [NewTxOut 199000000 (pkScript sampleDest), NewTxOut 700000000 samplePeg,
              NewTxOut 0 (OP_RETURN # pushBytes (encodeRelease \<lparr>Hash = TxHash sampleHashes (t_tx sampleDepositTx), Index = 2\<rparr>))], LockTime = 0\<rparr>,
     t_confirmations = 3, t_time = 3100\<rparr>"

definition sampleVm :: chain where
  "sampleVm = \<lparr>txsFor = (\<lambda>addrs. Inr [sampleFunding, sampleVmRelease]), unspent = (\<lambda>addrs n. Inr []), conflictedFor = None, inBlock = None, inUTXOSet = None\<rparr>"

definition sampleState :: pegState where
  "sampleState = (case load sampleHashes sampleBridge sampleVm sampleDoge (Inr [sampleDest]) NoFile of Inr s \<Rightarrow> s | Inl e \<Rightarrow> emptyState)"

definition sampleRef :: OutPoint where
  "sampleRef = \<lparr>Hash = TxHash sampleHashes (t_tx sampleDepositTx), Index = 2\<rparr>"

lemma sample_eval:
  "case load sampleHashes sampleBridge sampleVm sampleDoge (Inr [sampleDest]) NoFile of Inl e \<Rightarrow> False | Inr s \<Rightarrow>
     lookup (released s) sampleRef = Some (TxHash sampleHashes (t_tx sampleVmRelease))
     \<and> PendingPegIns (audit_of s) + UnclaimedOnDoge (audit_of s) + PendingRefunds (audit_of s) = 700000000
     \<and> list_all (\<lambda>t. TxHash sampleHashes (t_tx t) \<noteq> zeroHash) (vmTxs s @ dogeTxs s)"
  by code_simp

lemma sample_load: "load sampleHashes sampleBridge sampleVm sampleDoge (Inr [sampleDest]) NoFile = Inr sampleState"
  "lookup (released sampleState) sampleRef = Some (TxHash sampleHashes (t_tx sampleVmRelease))"
  "PendingPegIns (audit_of sampleState) + UnclaimedOnDoge (audit_of sampleState) + PendingRefunds (audit_of sampleState) = 700000000"
  "\<forall>t \<in> set (vmTxs sampleState) \<union> set (dogeTxs sampleState). TxHash sampleHashes (t_tx t) \<noteq> zeroHash"
  using sample_eval by (auto simp: sampleState_def list_all_iff split: sum.splits)

section \<open>Properties\<close>

text \<open>C2: a deposit counts as credited, a peg-out as paid and a deposit as refunded only by the tag of a
  transaction that spends an output of the reserve, or of the peg's addresses: transactions only
  the signers can make.\<close>

theorem tags_trusted_only_from_signers:
  assumes "load H b vm doge registry f = Inr s"
  shows "(\<forall>op h. lookup (released s) op = Some h \<longrightarrow> release_known H (signers_pkScript H (signers b)) (vmTxs s) op h)
    \<and> (\<forall>q h. lookup (paid s) q = Some h \<longrightarrow> payment_known H (redeemFor s) (dogeTxs s) q h)
    \<and> (\<forall>op h. lookup (refunded s) op = Some h \<longrightarrow> refund_known H (redeemFor s) (dogeTxs s) op h)"
  using load_released [OF assms] load_doge_known [OF assms] by (auto simp: doge_known_def)

theorem tags_trusted_only_from_signers_witness:
  "release_known sampleHashes (signers_pkScript sampleHashes (signers sampleBridge)) (vmTxs sampleState) sampleRef
     (TxHash sampleHashes (t_tx sampleVmRelease))"
  using tags_trusted_only_from_signers [OF sample_load(1)] sample_load(2) by blast

text \<open>C9: the audit owes each deposit read from Dogecoin exactly once: as a pending credit, an unclaimed
  deposit or a pending refund, from when it is in a block until it is credited or a refund of
  it is in a block, and never after.\<close>

theorem audit_owes_each_deposit_once:
  assumes "load H b vm doge registry f = Inr s" "listedContributions f = Inr listed"
    and "\<forall>t \<in> set (vmTxs s) \<union> set (dogeTxs s). TxHash H (t_tx t) \<noteq> zeroHash"
  shows "PendingPegIns (audit_of s) + UnclaimedOnDoge (audit_of s) + PendingRefunds (audit_of s)
    = owedValue s (snd (readDogeTxs H b listed s))"
  using load_owing [OF assms] by (simp add: audit_of_def owing_def Let_def)

theorem audit_owes_each_deposit_once_witness:
  "PendingPegIns (audit_of sampleState) + UnclaimedOnDoge (audit_of sampleState) + PendingRefunds (audit_of sampleState) = 700000000
   \<and> owedValue sampleState (snd (readDogeTxs sampleHashes sampleBridge [] sampleState)) = 700000000"
  using audit_owes_each_deposit_once [OF sample_load(1) _ sample_load(4), of "[]"] sample_load(3)
  by (simp add: listedContributions_def)

end
