(* ===== verification/Signing.thy ===== *)
theory Signing
  imports Lineage
begin

unbundle bit_operations_syntax

text \<open>
  Signatures: the signature hash of \<open>btcd/txscript/sighash.go\<close>, and what
  \<open>cmd/dogevm/signers.go\<close>, \<open>fence.go\<close> and \<open>cosign.go\<close> do with signatures of the peg's inputs.
  ECDSA itself is outside the repository: it is the record \<open>ecdsa\<close> of functions.
\<close>

section \<open>Signature hashes\<close>

definition OP_CODESEPARATOR :: byte where "OP_CODESEPARATOR = 0xab"
definition SigHashAll :: "32 word" where "SigHashAll = 1"
definition SigHashNone :: "32 word" where "SigHashNone = 2"
definition SigHashSingle :: "32 word" where "SigHashSingle = 3"
definition SigHashAnyOneCanPay :: "32 word" where "SigHashAnyOneCanPay = 0x80"
definition sigHashMask :: "32 word" where "sigHashMask = 0x1f"

function checkScriptParses :: "bytes \<Rightarrow> serr + unit" where
  "checkScriptParses r = (case Next r of
     None \<Rightarrow> Inr ()
   | Some (Inl e) \<Rightarrow> Inl e
   | Some (Inr (op, d, rest)) \<Rightarrow> checkScriptParses rest)"
  by pat_completeness auto
termination by (relation "measure length") (auto dest: Next_shorter)

declare checkScriptParses.simps [simp del]

text \<open>The loop of \<open>removeOpcodeRaw\<close>: what is before the offset, the result once an opcode was dropped, the rest.\<close>

function removeLoop :: "byte \<Rightarrow> bytes \<Rightarrow> bytes option \<Rightarrow> bytes \<Rightarrow> bytes option" where
  "removeLoop opcode before result r = (case Next r of
     Some (Inr (op, d, rest)) \<Rightarrow>
       let token = take (length r - length rest) r in
       if op = opcode then removeLoop opcode (before @ token) (Some (case result of None \<Rightarrow> before | Some x \<Rightarrow> x)) rest
       else removeLoop opcode (before @ token) (map_option (\<lambda>x. x @ token) result) rest
   | _ \<Rightarrow> result)"
  by pat_completeness auto
termination by (relation "measure (\<lambda>(opcode, before, result, r). length r)") (auto dest: Next_shorter)

declare removeLoop.simps [simp del]

definition removeOpcodeRaw :: "bytes \<Rightarrow> byte \<Rightarrow> bytes" where
  "removeOpcodeRaw s opcode = (case removeLoop opcode [] None s of None \<Rightarrow> s | Some x \<Rightarrow> x)"

text \<open>\<open>None\<close>: slicing the inputs at an index beyond them panics.\<close>

definition calcSignatureHash :: "hashes \<Rightarrow> bytes \<Rightarrow> 32 word \<Rightarrow> MsgTx \<Rightarrow> nat \<Rightarrow> bytes option" where
  "calcSignatureHash H sigScript hashType tx idx =
     (if hashType AND sigHashMask = SigHashSingle \<and> idx \<ge> length (TxOut tx) then Some (1 # replicate 31 0) else
      let sc = removeOpcodeRaw sigScript OP_CODESEPARATOR;
          ins = map (\<lambda>(i, ti). ti\<lparr>SignatureScript := (if i = idx then sc else [])\<rparr>) (enumerate 0 (TxIn tx));
          others = map (\<lambda>(i, ti). if i = idx then ti else ti\<lparr>Sequence := 0\<rparr>) (enumerate 0 ins);
          masked = hashType AND sigHashMask;
          ins = (if masked = SigHashNone \<or> masked = SigHashSingle then others else ins);
          outs = (if masked = SigHashNone then []
                  else if masked = SigHashSingle
                  then map (\<lambda>(i, out). if i < idx then NewTxOut (-1) [] else out) (enumerate 0 (take (idx + 1) (TxOut tx)))
                  else TxOut tx) in
      if hashType AND SigHashAnyOneCanPay \<noteq> 0 \<and> idx \<ge> length ins then None else
      let ins = (if hashType AND SigHashAnyOneCanPay \<noteq> 0 then [ins ! idx] else ins) in
      Some (DoubleHashRaw H (SerializeNoWitness (tx\<lparr>TxIn := ins, TxOut := outs\<rparr>) @ le_bytes 4 (unat hashType))))"

definition CalcSignatureHash :: "hashes \<Rightarrow> bytes \<Rightarrow> 32 word \<Rightarrow> MsgTx \<Rightarrow> nat \<Rightarrow> perr + bytes" where
  "CalcSignatureHash H scr hashType tx idx = (case checkScriptParses scr of
     Inl e \<Rightarrow> Inl BadScript
   | Inr u \<Rightarrow> (case calcSignatureHash H scr hashType tx idx of None \<Rightarrow> Inl Panicked | Some h \<Rightarrow> Inr h))"

text \<open>A transaction without its signatures, and the identifier the signing log knows it by.\<close>

definition unsignedTx :: "MsgTx \<Rightarrow> MsgTx" where
  "unsignedTx tx = tx\<lparr>TxIn := map (\<lambda>ti. ti\<lparr>SignatureScript := [], Witness := []\<rparr>) (TxIn tx)\<rparr>"

definition unsignedHash :: "hashes \<Rightarrow> MsgTx \<Rightarrow> bytes" where
  "unsignedHash H tx = TxHash H (unsignedTx tx)"

section \<open>Signing and verifying\<close>

text \<open>
  A private key signs a hash; a DER signature is parsed and verified against a public key.
\<close>

record ecdsa =
  pubOf :: "bytes \<Rightarrow> bytes"
  signHash :: "bytes \<Rightarrow> bytes \<Rightarrow> bytes"
  verifyHash :: "bytes \<Rightarrow> bytes \<Rightarrow> bytes \<Rightarrow> bool"

definition RawTxInSignature :: "hashes \<Rightarrow> ecdsa \<Rightarrow> MsgTx \<Rightarrow> nat \<Rightarrow> bytes \<Rightarrow> 32 word \<Rightarrow> bytes \<Rightarrow> perr + bytes" where
  "RawTxInSignature H E tx idx subScript hashType key =
     bindr (CalcSignatureHash H subScript hashType tx idx) (\<lambda>hash. Inr (signHash E key hash @ [ucast hashType]))"

definition indexOf :: "signerSet \<Rightarrow> bytes \<Rightarrow> nat option" where
  "indexOf s pub = List.find (\<lambda>i. pubKeys s ! i = pub) [0..<length (pubKeys s)]"

fun collect :: "('e + 'a) list \<Rightarrow> 'e + 'a list" where
  "collect [] = Inr []"
| "collect (r # rs) = bindr r (\<lambda>x. bindr (collect rs) (\<lambda>xs. Inr (x # xs)))"

definition signInputs :: "hashes \<Rightarrow> ecdsa \<Rightarrow> MsgTx \<Rightarrow> bytes list \<Rightarrow> bytes \<Rightarrow> perr + bytes list" where
  "signInputs H E tx redeems key =
     (if length redeems \<noteq> length (TxIn tx) then Inl NoRedeem
      else collect (map (\<lambda>(i, redeem). RawTxInSignature H E tx i redeem SigHashAll key) (enumerate 0 redeems)))"

text \<open>One signature of one input, with its trailing hash type.\<close>

definition verifyInput :: "hashes \<Rightarrow> ecdsa \<Rightarrow> MsgTx \<Rightarrow> nat \<Rightarrow> bytes \<Rightarrow> bytes \<Rightarrow> bytes \<Rightarrow> perr + unit" where
  "verifyInput H E tx i redeem pub sig =
     (if length sig < 2 \<or> ucast (last sig) \<noteq> SigHashAll then Inl NotSigHashAll
      else bindr (CalcSignatureHash H redeem SigHashAll tx i) (\<lambda>hash.
        if verifyHash E pub hash (butlast sig) then Inr () else Inl BadSignature))"

definition verifyInputs :: "hashes \<Rightarrow> ecdsa \<Rightarrow> signerSet \<Rightarrow> MsgTx \<Rightarrow> bytes list \<Rightarrow> nat \<Rightarrow> bytes list \<Rightarrow> perr + unit" where
  "verifyInputs H E s tx redeems index sigs =
     (if index \<ge> length (pubKeys s) then Inl NoSuchSigner
      else if length sigs \<noteq> length (TxIn tx) \<or> length redeems \<noteq> length (TxIn tx) then Inl SignatureCount
      else bindr (collect (map (\<lambda>(i, sig). verifyInput H E tx i (redeems ! i) (pubKeys s ! index) sig) (enumerate 0 sigs)))
        (\<lambda>us. Inr ()))"

definition pegRedeem :: "signerSet \<Rightarrow> bytes \<Rightarrow> bool" where
  "pegRedeem s scr = (scr = redeemScript s \<or>
     (length scr = length (redeemScript s) + 23 \<and> scr ! 0 = 21 \<and> scr ! 22 = OP_DROP \<and> drop 23 scr = redeemScript s))"

definition signedInput :: "hashes \<Rightarrow> ecdsa \<Rightarrow> signerSet \<Rightarrow> bytes \<Rightarrow> MsgTx \<Rightarrow> nat \<times> TxIn \<Rightarrow> bool" where
  "signedInput H E s pub tx = (\<lambda>(i, ti). case PushedData (SignatureScript ti) of
     Inl e \<Rightarrow> False
   | Inr pushes \<Rightarrow>
       if length pushes < 2 \<or> \<not> pegRedeem s (last pushes) then False
       else case CalcSignatureHash H (last pushes) SigHashAll tx i of
         Inl e \<Rightarrow> False
       | Inr hash \<Rightarrow> list_ex (\<lambda>item. length item \<ge> 2 \<and> ucast (last item) = SigHashAll
             \<and> verifyHash E pub hash (butlast item)) (butlast pushes))"

definition signedBy :: "hashes \<Rightarrow> ecdsa \<Rightarrow> signerSet \<Rightarrow> bytes \<Rightarrow> MsgTx \<Rightarrow> bool" where
  "signedBy H E s pub tx = (indexOf s pub \<noteq> None \<and> list_ex (signedInput H E s pub tx) (enumerate 0 (TxIn tx)))"

section \<open>Collecting a quorum\<close>

text \<open>The signatures of the keys this process holds.\<close>

fun signOwn :: "hashes \<Rightarrow> ecdsa \<Rightarrow> MsgTx \<Rightarrow> bytes list \<Rightarrow> (nat \<times> bytes) list \<Rightarrow> (nat, bytes list) gomap \<Rightarrow>
    perr + (nat, bytes list) gomap" where
  "signOwn H E tx redeems [] sigs = Inr sigs"
| "signOwn H E tx redeems ((i, key) # rest) sigs =
     bindr (signInputs H E tx redeems key) (\<lambda>s. signOwn H E tx redeems rest (store sigs i s))"

definition ownKeys :: "ecdsa \<Rightarrow> signerSet \<Rightarrow> bytes list \<Rightarrow> (nat \<times> bytes) list" where
  "ownKeys E s privKeys = concat (map (\<lambda>(i, pub). map (\<lambda>key. (i, key)) (filter (\<lambda>key. pubOf E key = pub) privKeys))
     (enumerate 0 (pubKeys s)))"

text \<open>What the remote signers answered, in order, up to enough signatures.\<close>

fun askRemotes :: "hashes \<Rightarrow> ecdsa \<Rightarrow> signerSet \<Rightarrow> MsgTx \<Rightarrow> bytes list \<Rightarrow> (perr + nat \<times> bytes list) list \<Rightarrow>
    (nat, bytes list) gomap \<Rightarrow> (nat, bytes list) gomap" where
  "askRemotes H E s tx redeems [] sigs = sigs"
| "askRemotes H E s tx redeems (r # rs) sigs =
     (if length sigs \<ge> Required s then sigs
      else askRemotes H E s tx redeems rs (case r of
         Inl e \<Rightarrow> sigs
       | Inr (index, sg) \<Rightarrow>
           if has_key sigs index then sigs
           else if is_ok (verifyInputs H E s tx redeems index sg) then store sigs index sg
           else sigs))"

definition authorize :: "hashes \<Rightarrow> ecdsa \<Rightarrow> signerSet \<Rightarrow> bytes list \<Rightarrow> (perr + nat \<times> bytes list) list \<Rightarrow>
    MsgTx \<Rightarrow> bytes list \<Rightarrow> perr + MsgTx" where
  "authorize H E s privKeys remotes tx redeems =
     bindr (signOwn H E tx redeems (ownKeys E s privKeys) []) (\<lambda>sigs.
     let sigs = askRemotes H E s tx redeems remotes sigs in
     if length sigs < Required s then Inl TooFewSigners else assemble s tx redeems sigs)"

section \<open>A signature hash does not read signatures\<close>

lemma SerializeNoWitness_ins:
  "map writeTxInBuf a = map writeTxInBuf b \<Longrightarrow>
   SerializeNoWitness (tx\<lparr>TxIn := a, TxOut := outs\<rparr>) = SerializeNoWitness (tx\<lparr>TxIn := b, TxOut := outs\<rparr>)"
proof -
  assume e: "map writeTxInBuf a = map writeTxInBuf b"
  from arg_cong [OF e, of length] have "length a = length b" by simp
  with e show ?thesis by (simp add: SerializeNoWitness_def btcEncode_def)
qed

lemma unsignedTx_simps [simp]:
  "Version (unsignedTx tx) = Version tx" "TxOut (unsignedTx tx) = TxOut tx" "LockTime (unsignedTx tx) = LockTime tx"
  "length (TxIn (unsignedTx tx)) = length (TxIn tx)"
  "map PreviousOutPoint (TxIn (unsignedTx tx)) = map PreviousOutPoint (TxIn tx)"
  "map Sequence (TxIn (unsignedTx tx)) = map Sequence (TxIn tx)"
  by (simp_all add: unsignedTx_def comp_def)

lemma unsignedTx_update: "(unsignedTx tx)\<lparr>TxIn := a, TxOut := outs\<rparr> = tx\<lparr>TxIn := a, TxOut := outs\<rparr>"
  by (simp add: unsignedTx_def)

lemma calcSignatureHash_all:
  "calcSignatureHash H sc SigHashAll tx idx = Some (DoubleHashRaw H (SerializeNoWitness
     (tx\<lparr>TxIn := map (\<lambda>(i, ti). ti\<lparr>SignatureScript := (if i = idx then removeOpcodeRaw sc OP_CODESEPARATOR else [])\<rparr>)
        (enumerate 0 (TxIn tx)), TxOut := TxOut tx\<rparr>) @ le_bytes 4 1))"
  by (simp add: calcSignatureHash_def Let_def SigHashAll_def SigHashNone_def SigHashSingle_def SigHashAnyOneCanPay_def sigHashMask_def)

lemma calcSignatureHash_unsigned:
  "calcSignatureHash H sc SigHashAll (unsignedTx tx) idx = calcSignatureHash H sc SigHashAll tx idx"
proof -
  let ?F = "\<lambda>(i, ti). ti\<lparr>SignatureScript := (if i = idx then removeOpcodeRaw sc OP_CODESEPARATOR else [])\<rparr>"
  have "map writeTxInBuf (map ?F (enumerate 0 (TxIn (unsignedTx tx)))) = map writeTxInBuf (map ?F (enumerate 0 (TxIn tx)))"
    by (rule nth_equalityI) (simp_all add: nth_enumerate_eq unsignedTx_def writeTxInBuf_def)
  note same = SerializeNoWitness_ins [OF this]
  show ?thesis unfolding calcSignatureHash_all unsignedTx_update unsignedTx_simps(2) same ..
qed

lemma CalcSignatureHash_unsigned:
  "unsignedTx tx = unsignedTx tx' \<Longrightarrow> CalcSignatureHash H sc SigHashAll tx idx = CalcSignatureHash H sc SigHashAll tx' idx"
  unfolding CalcSignatureHash_def by (metis calcSignatureHash_unsigned)

section \<open>Assembled signature scripts\<close>

lemma PushedData_OP_0: "PushedData (OP_0 # r) = bindr (PushedData r) (\<lambda>ds. Inr ([] # ds))"
proof -
  have "Next (OP_0 # r) = Some (Inr (OP_0, None, r))"
    by (simp add: Next_def opcodeLength_def opcodes)
  then show ?thesis by (subst PushedData.simps) simp
qed

lemma PushedData_pushes:
  assumes "list_all (\<lambda>d. 2 \<le> length d \<and> length d \<le> MaxScriptElementSize) ds"
  shows "PushedData (concat (map pushBytes ds)) = Inr ds"
  using assms by (induction ds) (simp_all add: PushedData_push)

lemma AddData_ok:
  assumes "err (AddData d b) = None"
  shows "err b = None" "length d \<le> MaxScriptElementSize" "script (AddData d b) = script b @ pushBytes d"
  using assms by (auto simp: AddData_def addData_def split: if_splits)

lemma AddData_foldl_ok:
  "err (foldl (\<lambda>b d. AddData d b) b ds) = None \<Longrightarrow>
   err b = None \<and> list_all (\<lambda>d. length d \<le> MaxScriptElementSize) ds
   \<and> script (foldl (\<lambda>b d. AddData d b) b ds) = script b @ concat (map pushBytes ds)"
proof (induction ds arbitrary: b)
  case (Cons d ds)
  from Cons.IH [of "AddData d b"] Cons.prems have "err (AddData d b) = None"
    "list_all (\<lambda>d. length d \<le> MaxScriptElementSize) ds"
    "script (foldl (\<lambda>b d. AddData d b) (AddData d b) ds) = script (AddData d b) @ concat (map pushBytes ds)" by auto
  with AddData_ok [of d b] show ?case by simp
qed simp

lemma built_pushes:
  assumes "Script_of (foldl (\<lambda>b d. AddData d b) (AddOp OP_0 NewScriptBuilder) ds) = Inr sc" "list_all (\<lambda>d. 2 \<le> length d) ds"
  shows "PushedData sc = Inr ([] # ds)"
proof -
  have e: "err (foldl (\<lambda>b d. AddData d b) (AddOp OP_0 NewScriptBuilder) ds) = None"
    and s: "sc = script (foldl (\<lambda>b d. AddData d b) (AddOp OP_0 NewScriptBuilder) ds)"
    using assms(1) by (auto simp: Script_of_def split: option.splits)
  note f = AddData_foldl_ok [OF e]
  have "sc = OP_0 # concat (map pushBytes ds)"
    using f s by (simp add: AddOp_def NewScriptBuilder_def MaxScriptSize_def)
  moreover have "list_all (\<lambda>d. 2 \<le> length d \<and> length d \<le> MaxScriptElementSize) ds"
    using f assms(2) by (simp add: list_all_iff)
  ultimately show ?thesis by (simp add: PushedData_OP_0 PushedData_pushes)
qed

section \<open>Every collected signature verifies\<close>

lemma collect_Inr: "collect rs = Inr xs \<longleftrightarrow> rs = map Inr xs"
proof (induction rs arbitrary: xs)
  case (Cons r rs)
  then show ?case by (cases r; cases xs) (auto simp: bindr_Inr_iff)
qed auto

text \<open>What ECDSA promises: a key's signature of a hash verifies under its public key; a signature is not empty.\<close>

definition ecdsa_ok :: "ecdsa \<Rightarrow> bool" where
  "ecdsa_ok E \<longleftrightarrow> (\<forall>key hash. verifyHash E (pubOf E key) hash (signHash E key hash) \<and> signHash E key hash \<noteq> [])"

lemma verifyInputs_Inr:
  "verifyInputs H E s tx redeems k sg = Inr () \<longleftrightarrow> k < length (pubKeys s) \<and> length sg = length (TxIn tx)
     \<and> length redeems = length (TxIn tx) \<and> (\<forall>i < length (TxIn tx). verifyInput H E tx i (redeems ! i) (pubKeys s ! k) (sg ! i) = Inr ())"
proof -
  have "(\<exists>us. collect (map (\<lambda>(i, sig). verifyInput H E tx i (redeems ! i) (pubKeys s ! k) sig) (enumerate 0 sg)) = Inr us)
      \<longleftrightarrow> (\<forall>i < length sg. verifyInput H E tx i (redeems ! i) (pubKeys s ! k) (sg ! i) = Inr ())" (is "?l \<longleftrightarrow> ?r")
  proof
    assume ?l
    then obtain us where us: "map (\<lambda>(i, sig). verifyInput H E tx i (redeems ! i) (pubKeys s ! k) sig) (enumerate 0 sg) = map Inr us"
      by (auto simp: collect_Inr)
    from arg_cong [OF us, of length] have "length us = length sg" by simp
    then have "verifyInput H E tx i (redeems ! i) (pubKeys s ! k) (sg ! i) = Inr ()" if "i < length sg" for i
      using arg_cong [OF us, of "\<lambda>xs. xs ! i"] that by (simp add: nth_enumerate_eq)
    then show ?r by blast
  next
    assume ?r
    then have "map (\<lambda>(i, sig). verifyInput H E tx i (redeems ! i) (pubKeys s ! k) sig) (enumerate 0 sg) = map Inr (replicate (length sg) ())"
      by (intro nth_equalityI) (simp_all add: nth_enumerate_eq)
    then show ?l unfolding collect_Inr by blast
  qed
  then show ?thesis by (auto simp: verifyInputs_def bindr_Inr_iff not_le)
qed

lemma signInputs_verify:
  assumes "ecdsa_ok E" "signInputs H E tx redeems key = Inr sg" "k < length (pubKeys s)" "pubOf E key = pubKeys s ! k"
  shows "verifyInputs H E s tx redeems k sg = Inr ()"
proof -
  have l: "length redeems = length (TxIn tx)"
    and m: "map (\<lambda>(i, redeem). RawTxInSignature H E tx i redeem SigHashAll key) (enumerate 0 redeems) = map Inr sg"
    using assms(2) by (auto simp: signInputs_def collect_Inr split: if_splits)
  from arg_cong [OF m, of length] l have n: "length sg = length (TxIn tx)" by simp
  have "verifyInput H E tx i (redeems ! i) (pubKeys s ! k) (sg ! i) = Inr ()" if i: "i < length (TxIn tx)" for i
  proof -
    have "RawTxInSignature H E tx i (redeems ! i) SigHashAll key = Inr (sg ! i)"
      using arg_cong [OF m, of "\<lambda>xs. xs ! i"] i l n by (simp add: nth_enumerate_eq)
    then obtain hash where "CalcSignatureHash H (redeems ! i) SigHashAll tx i = Inr hash"
      "sg ! i = signHash E key hash @ [ucast SigHashAll]" by (auto simp: RawTxInSignature_def bindr_Inr_iff)
    moreover have "verifyHash E (pubKeys s ! k) hash (signHash E key hash)" "length (signHash E key hash) \<ge> 1"
      using assms(1) unfolding assms(4) [symmetric] ecdsa_ok_def by (auto simp: Suc_le_eq)
    ultimately show ?thesis by (auto simp: verifyInput_def SigHashAll_def)
  qed
  then show ?thesis using assms(3) l n by (simp add: verifyInputs_Inr)
qed

definition sigsOK :: "hashes \<Rightarrow> ecdsa \<Rightarrow> signerSet \<Rightarrow> MsgTx \<Rightarrow> bytes list \<Rightarrow> (nat, bytes list) gomap \<Rightarrow> bool" where
  "sigsOK H E s tx redeems sigs \<longleftrightarrow> (\<forall>k sg. lookup sigs k = Some sg \<longrightarrow> verifyInputs H E s tx redeems k sg = Inr ())"

lemma ownKeys_pub: "(i, key) \<in> set (ownKeys E s privKeys) \<Longrightarrow> i < length (pubKeys s) \<and> pubOf E key = pubKeys s ! i"
  by (auto simp: ownKeys_def in_set_enumerate_eq)

lemma signOwn_ok:
  assumes "ecdsa_ok E" "\<forall>(i, key) \<in> set ks. i < length (pubKeys s) \<and> pubOf E key = pubKeys s ! i"
    "signOwn H E tx redeems ks sigs = Inr sigs'" "sigsOK H E s tx redeems sigs"
  shows "sigsOK H E s tx redeems sigs'"
  using assms(2-4)
proof (induction ks arbitrary: sigs)
  case (Cons ik ks)
  obtain i key where ik: "ik = (i, key)" by (cases ik)
  from Cons.prems ik obtain sg where sg: "signInputs H E tx redeems key = Inr sg"
    "signOwn H E tx redeems ks (store sigs i sg) = Inr sigs'" by auto
  have "verifyInputs H E s tx redeems i sg = Inr ()"
    using signInputs_verify [OF assms(1) sg(1)] Cons.prems(1) ik by simp
  with Cons.prems(3) have "sigsOK H E s tx redeems (store sigs i sg)" by (simp add: sigsOK_def)
  with Cons.IH [OF _ sg(2)] Cons.prems(1) show ?case by simp
qed simp

lemma askRemotes_ok: "sigsOK H E s tx redeems sigs \<Longrightarrow> sigsOK H E s tx redeems (askRemotes H E s tx redeems rs sigs)"
proof (induction rs arbitrary: sigs)
  case (Cons r rs)
  have "sigsOK H E s tx redeems (case r of Inl e \<Rightarrow> sigs | Inr (index, sg) \<Rightarrow>
      if has_key sigs index then sigs else if is_ok (verifyInputs H E s tx redeems index sg) then store sigs index sg else sigs)"
    using Cons.prems by (auto simp: sigsOK_def is_ok_iff split: sum.split)
  from Cons.IH [OF this] Cons.prems show ?case by simp
qed simp

lemma foldl_AddData_map:
  "AddData d (foldl (\<lambda>b k. AddData (f k) b) b ks) = foldl (\<lambda>b d. AddData d b) b (map f ks @ [d])"
  by (simp add: foldl_map)

lemma strip_signature: "(case r of Inr sc \<Rightarrow> ti\<lparr>SignatureScript := sc\<rparr> | Inl e \<Rightarrow> ti)\<lparr>SignatureScript := [], Witness := []\<rparr>
    = ti\<lparr>SignatureScript := [], Witness := []\<rparr>"
  by (cases r) simp_all

lemma unsignedTx_sign:
  "length scs = length (TxIn tx) \<Longrightarrow>
   unsignedTx (tx\<lparr>TxIn := map2 (\<lambda>ti r. case r of Inr sc \<Rightarrow> ti\<lparr>SignatureScript := sc\<rparr> | Inl e \<Rightarrow> ti) (TxIn tx) scs\<rparr>) = unsignedTx tx"
  by (simp add: unsignedTx_def comp_def case_prod_beta strip_signature) (simp add: list_eq_iff_nth_eq)

lemma assemble_Inr:
  assumes "assemble s tx redeems sigs = Inr tx'"
  defines "ks \<equiv> take (Required s) (filter (has_key sigs) [0..<length (pubKeys s)])"
  shows "length ks = Required s" "length redeems = length (TxIn tx)" "unsignedTx tx' = unsignedTx tx"
    and "\<forall>i < length (TxIn tx). Script_of (foldl (\<lambda>b d. AddData d b) (AddOp OP_0 NewScriptBuilder)
          (map (\<lambda>k. get_or sigs k [] ! i) ks @ [redeems ! i])) = Inr (SignatureScript (TxIn tx' ! i))"
proof -
  obtain built where b: "built = (\<lambda>i. Script_of (foldl (\<lambda>b d. AddData d b) (AddOp OP_0 NewScriptBuilder)
          (map (\<lambda>k. get_or sigs k [] ! i) ks @ [redeems ! i])))" by simp
  have ks: "take (Required s) (filter (has_key sigs) [0..<length (pubKeys s)]) = ks" by (simp add: ks_def)
  have a: "length redeems = length (TxIn tx)" "\<not> length ks < Required s" "list_all is_ok (map built [0..<length redeems])"
    "tx' = tx\<lparr>TxIn := map2 (\<lambda>ti r. case r of Inr sc \<Rightarrow> ti\<lparr>SignatureScript := sc\<rparr> | Inl e \<Rightarrow> ti) (TxIn tx)
        (map built [0..<length redeems])\<rparr>"
    using assms(1) unfolding assemble_def Let_def foldl_AddData_map ks b by (simp_all split: if_split_asm del: foldl_append)
  show "length redeems = length (TxIn tx)" by (rule a(1))
  show "length ks = Required s" using a(2) by (simp add: ks_def)
  show "unsignedTx tx' = unsignedTx tx" unfolding a(4) by (rule unsignedTx_sign) (simp add: a(1))
  have "built i = Inr (SignatureScript (TxIn tx' ! i))" if i: "i < length (TxIn tx)" for i
  proof -
    have "is_ok (built i)" using a(3) i by (simp add: list_all_iff a(1))
    then obtain sc where "built i = Inr sc" by (auto simp: is_ok_iff)
    with i show ?thesis unfolding a(4) by (simp add: a(1))
  qed
  then show "\<forall>i < length (TxIn tx). Script_of (foldl (\<lambda>b d. AddData d b) (AddOp OP_0 NewScriptBuilder)
          (map (\<lambda>k. get_or sigs k [] ! i) ks @ [redeems ! i])) = Inr (SignatureScript (TxIn tx' ! i))"
    unfolding b by blast
qed

lemma verifyInput_length: "verifyInput H E tx i redeem pub sig = Inr () \<Longrightarrow> 2 \<le> length sig"
  by (simp add: verifyInput_def split: if_split_asm)

text \<open>An assembled transaction shows the signature of each signer whose signatures it was built from.\<close>

lemma assembled_signed:
  assumes "assemble s tx redeems sigs = Inr tx'" "sigsOK H E s tx redeems sigs"
    "list_all (pegRedeem s) redeems" "2 \<le> length (redeemScript s)"
    "k \<in> set (take (Required s) (filter (has_key sigs) [0..<length (pubKeys s)]))" "i < length (TxIn tx)"
  shows "signedInput H E s (pubKeys s ! k) tx' (i, TxIn tx' ! i)"
proof -
  let ?ks = "take (Required s) (filter (has_key sigs) [0..<length (pubKeys s)])"
  let ?ds = "map (\<lambda>k. get_or sigs k [] ! i) ?ks"
  note a = assemble_Inr [OF assms(1)]
  have v: "verifyInput H E tx i (redeems ! i) (pubKeys s ! j) (get_or sigs j [] ! i) = Inr ()" if "j \<in> set ?ks" for j
  proof -
    have "has_key sigs j" using set_take_subset [of "Required s"] that by fastforce
    then obtain sg where "lookup sigs j = Some sg" by (auto simp: has_key_def)
    then show ?thesis using assms(2,6) by (simp add: sigsOK_def verifyInputs_Inr get_or_def)
  qed
  have len: "list_all (\<lambda>d. 2 \<le> length d) ?ds"
    using verifyInput_length [OF v] by (auto simp: list_all_iff)
  have red: "pegRedeem s (redeems ! i)" using assms(3,6) a(2) by (simp add: list_all_length)
  then have "2 \<le> length (redeems ! i)" using assms(4) by (auto simp: pegRedeem_def)
  with len have len': "list_all (\<lambda>d. 2 \<le> length d) (?ds @ [redeems ! i])" by simp
  have pushes: "PushedData (SignatureScript (TxIn tx' ! i)) = Inr ([] # ?ds @ [redeems ! i])"
    by (rule built_pushes [OF _ len']) (use a(4) assms(6) in blast)
  from v [OF assms(5)] obtain hash where h: "CalcSignatureHash H (redeems ! i) SigHashAll tx i = Inr hash"
    "verifyHash E (pubKeys s ! k) hash (butlast (get_or sigs k [] ! i))" "length (get_or sigs k [] ! i) \<ge> 2"
    "ucast (last (get_or sigs k [] ! i)) = SigHashAll"
    by (auto simp: verifyInput_def bindr_Inr_iff split: if_splits)
  have "CalcSignatureHash H (redeems ! i) SigHashAll tx' i = Inr hash"
    using h(1) CalcSignatureHash_unsigned [OF a(3)] by simp
  moreover have "get_or sigs k [] ! i \<in> set ?ds" using assms(5) by auto
  ultimately show ?thesis
    using pushes h red by (auto simp: signedInput_def list_ex_iff butlast_append)
qed

section \<open>Samples\<close>

text \<open>A scheme in which a signature is the key and the hash, as far as a push allows.\<close>

definition sampleECDSA :: ecdsa where
  "sampleECDSA = \<lparr>pubOf = (\<lambda>key. key), signHash = (\<lambda>key hash. key @ hash @ [0]), verifyHash = (\<lambda>pub hash sig. sig = pub @ hash @ [0])\<rparr>"

lemma sampleECDSA_ok: "ecdsa_ok sampleECDSA"
  by (simp add: ecdsa_ok_def sampleECDSA_def)

definition sampleUnsigned :: MsgTx where
  "sampleUnsigned = t_tx samplePayout"

definition sampleAuthorized :: "perr + MsgTx" where
  "sampleAuthorized = authorize sampleHashes sampleECDSA sampleSigners [[2]]
     [Inl ReadFailed, Inr (1, [[9, 9]]),
      bindr (signInputs sampleHashes sampleECDSA sampleUnsigned [redeemScript sampleSigners] [4]) (\<lambda>sg. Inr (2, sg))] sampleUnsigned [redeemScript sampleSigners]"

section \<open>Properties\<close>

text \<open>C4: a transaction the coordinator authorizes is the one it proposed, and every input of it carries
  valid signatures of as many different signers as the set requires, whatever the remote signers answered.\<close>

theorem authorized_by_quorum:
  assumes "authorize H E s privKeys remotes tx redeems = Inr tx'" "ecdsa_ok E"
    and "list_all (pegRedeem s) redeems" "2 \<le> length (redeemScript s)"
  shows "unsignedTx tx' = unsignedTx tx \<and> (\<exists>ks. distinct ks \<and> length ks = Required s \<and> set ks \<subseteq> {..<length (pubKeys s)} \<and>
     (\<forall>k \<in> set ks. \<forall>i < length (TxIn tx). signedInput H E s (pubKeys s ! k) tx' (i, TxIn tx' ! i)))"
proof -
  obtain own where own: "signOwn H E tx redeems (ownKeys E s privKeys) [] = Inr own"
    "assemble s tx redeems (askRemotes H E s tx redeems remotes own) = Inr tx'"
    using assms(1) by (auto simp: authorize_def Let_def split: if_splits)
  have "sigsOK H E s tx redeems own"
    by (rule signOwn_ok [OF assms(2) _ own(1)]) (auto simp: sigsOK_def dest: ownKeys_pub)
  then have ok: "sigsOK H E s tx redeems (askRemotes H E s tx redeems remotes own)" by (rule askRemotes_ok)
  let ?ks = "take (Required s) (filter (has_key (askRemotes H E s tx redeems remotes own)) [0..<length (pubKeys s)])"
  have "distinct ?ks" "set ?ks \<subseteq> {..<length (pubKeys s)}"
    using set_take_subset [of "Required s" "filter (has_key (askRemotes H E s tx redeems remotes own)) [0..<length (pubKeys s)]"]
    by auto
  moreover note assemble_Inr(1,3) [OF own(2)]
  moreover have "\<forall>k \<in> set ?ks. \<forall>i < length (TxIn tx). signedInput H E s (pubKeys s ! k) tx' (i, TxIn tx' ! i)"
    using assembled_signed [OF own(2) ok assms(3,4)] by blast
  ultimately show ?thesis by blast
qed

theorem authorized_by_quorum_witness:
  "\<exists>tx' ks. sampleAuthorized = Inr tx' \<and> unsignedTx tx' = unsignedTx sampleUnsigned \<and> distinct ks \<and> length ks = 2
     \<and> (\<forall>k \<in> set ks. signedInput sampleHashes sampleECDSA sampleSigners (pubKeys sampleSigners ! k) tx' (0, TxIn tx' ! 0))"
proof -
  have "is_ok sampleAuthorized" by code_simp
  then obtain tx' where tx': "sampleAuthorized = Inr tx'" by (auto simp: is_ok_iff)
  have "Required sampleSigners = 2" "length (TxIn sampleUnsigned) = 1" "list_all (pegRedeem sampleSigners) [redeemScript sampleSigners]"
    "2 \<le> length (redeemScript sampleSigners)" by code_simp+
  then show ?thesis
    using authorized_by_quorum [OF tx' [unfolded sampleAuthorized_def] sampleECDSA_ok] tx' by force
qed

end
