(* ===== verification/SigningLog.thy ===== *)
theory SigningLog
  imports Load Signing "HOL-Library.Char_ord"
begin

text \<open>
  What a signer remembers: the keys of actions, the signing log of \<open>cmd/dogevm/cosign.go\<close>
  and the chain evidence of \<open>evidence.go\<close> it is checked against.  A log's actions are an association
  list, so a statement about every such list covers every order in which Go walks the map.
\<close>

section \<open>Actions\<close>

definition chainDogecoinVM :: string where "chainDogecoinVM = ''dogecoinvm''"
definition chainDogecoin :: string where "chainDogecoin = ''dogecoin''"
definition actionRelease :: string where "actionRelease = ''release''"
definition actionPayout :: string where "actionPayout = ''payout''"
definition actionRefund :: string where "actionRefund = ''refund''"
definition actionCancel :: string where "actionCancel = ''cancel''"
definition actionFence :: string where "actionFence = ''fence''"

text \<open>Everything a signer refuses with.\<close>

datatype cerr =
    Failed perr
  | BadTarget | UnknownAction | BadDest
  | NullAction | BadLogKey | AliasValues | LogMissing | LogUnreadable | WaivedChain | BadWaived
  | AlreadyInBlock | CouldConfirmBeside
  | AnchorUnset | BadAnchor | NoLine | AnchorUnspent | AnchorGone | TrailTooLong
  | WriteFailed | NotInSet | CutoverNotSupported | BadLoggedInput | UnknownFunding
  | NoSuchChain | PegTxPending | NoRecordedCoin | FenceWaits | BumpsOff | FenceUnknownCoin | FenceShallow
  | NothingToFence | FenceShort | NotInCutover
  | InCutover | DogeFenceUnsettled | DogeCutoverLeft | OverFenceBudget | FeeOverShare
  | Quarantined | Paused | BadTx | NotUnsigned | SpendsTwice | TooManyRegistrations | Insolvent
  | WrongChain | AlreadyCredited | AlreadyRefunded | WasCancelled | SignedRefund | NoDeposit
  | TooFewConfirmations | OverCap | NotAnchor | UnknownInput | InputsDontCover | AlreadyCancelled
  | NoReserveAnchor | ReleaseCouldConfirm | NotForced | NotApproved | NotCancellable
  | FenceNamesFirst | AlreadyPaid | NoPegOut | SignedRelease | NotHeld | NotCancelled | TooSmall
  | NothingToReplace | NotSameInputs | NotOneFeeMore | NotRebuilt | OverDaily | SigningFailed
  | NotInABlock | UnknownTags | AnchorAstray | WatchFailed

record action =
  Kind :: string
  Deposit :: string
  PegOut :: string
  To :: string

definition action_key :: "action \<Rightarrow> cerr + string" where
  "action_key a =
     (if Kind a \<in> {actionRelease, actionRefund, actionCancel, actionFence} then
        (case parseOutPoint (Deposit a) of
           None \<Rightarrow> Inl BadTarget
         | Some op \<Rightarrow> Inr (Kind a @ '':'' @ OutPoint_String op))
      else if Kind a = actionPayout then
        (case NewHashFromStr (PegOut a) of
           None \<Rightarrow> Inl BadTarget
         | Some txid \<Rightarrow> Inr (Kind a @ '':'' @ Hash_String txid))
      else Inl UnknownAction)"

definition encodeDest :: "destination \<Rightarrow> string" where
  "encodeDest d = hexEncode (kind d # dhash d)"

definition parseDest :: "string \<Rightarrow> cerr + destination" where
  "parseDest s = (case hexDecode s of
     None \<Rightarrow> Inl BadDest
   | Some raw \<Rightarrow> (case decodeDestination raw of None \<Rightarrow> Inl BadDest | Some d \<Rightarrow> Inr d))"

definition refundAction :: "OutPoint \<Rightarrow> destination \<Rightarrow> action" where
  "refundAction op dest = \<lparr>Kind = actionRefund, Deposit = OutPoint_String op, PegOut = [], To = encodeDest dest\<rparr>"

section \<open>The log\<close>

record loggedTx =
  Txid :: string
  Signed :: "string list"
  Inputs :: "string list"
  Chain :: string
  Fee :: int

record loggedAction =
  LValue :: int
  First :: int
  Txs :: "loggedTx list"

record signingLog =
  Actions :: "(string, loggedAction) gomap"
  Anchors :: "(string, string) gomap"
  History :: string
  Cutover :: "(string, string list) gomap"
  CutoverEpoch :: int
  CutoverStarted :: int
  FenceBudget :: int
  FenceCapital :: "string list"

definition historyNew :: string where "historyNew = ''new''"
definition historyFenced :: string where "historyFenced = ''fenced''"

definition createSigningLog :: signingLog where
  "createSigningLog = \<lparr>Actions = [], Anchors = [], History = historyNew, Cutover = [], CutoverEpoch = 0,
     CutoverStarted = 0, FenceBudget = 0, FenceCapital = []\<rparr>"

definition log_has :: "signingLog \<Rightarrow> string \<Rightarrow> bool" where
  "log_has l key = has_key (Actions l) key"

definition txids :: "signingLog \<Rightarrow> string list" where
  "txids l = concat (map (\<lambda>(k, a). map Txid (Txs a)) (Actions l))"

definition volumeSince :: "signingLog \<Rightarrow> int \<Rightarrow> int" where
  "volumeSince l t = foldl (\<lambda>n (k, a). if First a \<ge> t then n + LValue a else n) 0 (Actions l)"

text \<open>The inputs of a transaction as the log writes them.\<close>

definition inputTexts :: "MsgTx \<Rightarrow> string list" where
  "inputTexts tx = map (\<lambda>ti. OutPoint_String (PreviousOutPoint ti)) (TxIn tx)"

definition log_record ::
  "hashes \<Rightarrow> int \<Rightarrow> string \<Rightarrow> string \<Rightarrow> MsgTx \<Rightarrow> int \<Rightarrow> int \<Rightarrow> signingLog \<Rightarrow> signingLog" where
  "log_record H now key chn tx value fee l =
     (let l = (if chn \<noteq> [] \<and> TxIn tx \<noteq> []
               then l\<lparr>Anchors := store (Anchors l) chn (OutPoint_String (PreviousOutPoint (hd (TxIn tx))))\<rparr> else l);
          a = get_or (Actions l) key \<lparr>LValue = value, First = now, Txs = []\<rparr>;
          entry = \<lparr>Txid = Hash_String (TxHash H tx), Signed = [], Inputs = inputTexts tx, Chain = chn,
                   Fee = (if fee > 0 then fee else 0)\<rparr> in
      l\<lparr>Actions := store (Actions l) key (a\<lparr>Txs := Txs a @ [entry]\<rparr>)\<rparr>)"

subsection \<open>Reading a log\<close>

definition canonicalKey :: "string \<Rightarrow> cerr + string" where
  "canonicalKey rawKey = (case cut CHR '':'' rawKey of (k, v, ok) \<Rightarrow>
     if \<not> ok then Inl BadLogKey
     else if k \<in> {actionRelease, actionRefund, actionCancel, actionFence} then
       action_key \<lparr>Kind = k, Deposit = v, PegOut = [], To = []\<rparr>
     else if k = actionPayout then action_key \<lparr>Kind = k, Deposit = [], PegOut = v, To = []\<rparr>
     else Inl BadLogKey)"

fun normalizeLoop :: "(string \<times> loggedAction option) list \<Rightarrow> (string, loggedAction) gomap \<Rightarrow>
    cerr + (string, loggedAction) gomap" where
  "normalizeLoop [] normalized = Inr normalized"
| "normalizeLoop ((rawKey, None) # rest) normalized = Inl NullAction"
| "normalizeLoop ((rawKey, Some logged) # rest) normalized =
     (case canonicalKey rawKey of
        Inl e \<Rightarrow> Inl BadLogKey
      | Inr key \<Rightarrow>
         (case lookup normalized key of
            None \<Rightarrow> normalizeLoop rest (store normalized key logged)
          | Some existing \<Rightarrow>
              if LValue existing \<noteq> LValue logged then Inl AliasValues
              else normalizeLoop rest (store normalized key
                     (existing\<lparr>First := min (First existing) (First logged), Txs := Txs existing @ Txs logged\<rparr>))))"

definition normalizeKeys :: "(string \<times> loggedAction option) list \<Rightarrow> cerr + (string, loggedAction) gomap" where
  "normalizeKeys raw = normalizeLoop raw []"

definition cutoverChains :: "string list" where "cutoverChains = [chainDogecoin, chainDogecoinVM]"

fun restoreWaived :: "(string \<times> string list) list \<Rightarrow> (string, string list) gomap \<Rightarrow>
    cerr + (string, string list) gomap" where
  "restoreWaived [] co = Inr co"
| "restoreWaived ((chn, coins) # rest) co =
     (if coins = [] then restoreWaived rest co
      else if chn \<notin> set cutoverChains then Inl WaivedChain
      else let listed = get_or co chn [] @ coins in
        if list_ex (\<lambda>op. parseOutPoint op = None) listed then Inl BadWaived
        else restoreWaived rest (store co chn (sort (remdups listed))))"

text \<open>
  \<open>openSigningLog\<close>: reading the JSON is the parameter, absent when the file is missing.  It gives the raw
  actions, the other fields and the field \<open>cutoverWaived\<close> of an old log.
\<close>

definition openSigningLog ::
  "(perr + (string \<times> loggedAction option) list \<times> signingLog \<times> (string \<times> string list) list) option \<Rightarrow>
   cerr + signingLog" where
  "openSigningLog contents = (case contents of
     None \<Rightarrow> Inl LogMissing
   | Some (Inl e) \<Rightarrow> Inl LogUnreadable
   | Some (Inr (raw, l, waived)) \<Rightarrow>
       bindr (restoreWaived waived (Cutover l)) (\<lambda>co.
       bindr (normalizeKeys raw) (\<lambda>acts. Inr (l\<lparr>Cutover := co, Actions := acts\<rparr>))))"

section \<open>Chain evidence\<close>

text \<open>Questions a node may not be able to answer; an error counts as not confirmed, and as still unspent.\<close>

definition confirmedOn :: "chain \<Rightarrow> (string \<Rightarrow> bool) option" where
  "confirmedOn c = map_option (\<lambda>f txid. case NewHashFromStr txid of None \<Rightarrow> False | Some h \<Rightarrow> f h = Inr True) (inBlock c)"

definition unspentOn :: "chain \<Rightarrow> (OutPoint \<Rightarrow> bool) option" where
  "unspentOn c = map_option (\<lambda>f op. case f op of Inl e \<Rightarrow> True | Inr yes \<Rightarrow> yes) (inUTXOSet c)"

record chainEvidence =
  listed :: "(string, (string, chainTx) gomap) gomap"
  nodes :: "(string \<Rightarrow> chain) option"
  deep :: int

definition byUnsignedID :: "hashes \<Rightarrow> chainTx list \<Rightarrow> (string, chainTx) gomap" where
  "byUnsignedID H txs = foldl (\<lambda>m t.
     let txid = Hash_String (unsignedHash H (t_tx t)) in
     case lookup m txid of
       None \<Rightarrow> store m txid t
     | Some prev \<Rightarrow> if t_confirmations t > t_confirmations prev then store m txid t else m) [] txs"

definition newChainEvidence :: "hashes \<Rightarrow> pegState \<Rightarrow> (string \<Rightarrow> chain) option \<Rightarrow> chainEvidence" where
  "newChainEvidence H s nds = \<lparr>listed = [(chainDogecoinVM, byUnsignedID H (vmTxs s)), (chainDogecoin, byUnsignedID H (dogeTxs s))],
     nodes = nds, deep = 0\<rparr>"

definition listedTx :: "chainEvidence \<Rightarrow> string \<Rightarrow> string \<Rightarrow> chainTx option" where
  "listedTx e chn txid = lookup (get_or (listed e) chn []) txid"

definition ev_confirmed :: "chainEvidence \<Rightarrow> string \<Rightarrow> loggedTx \<Rightarrow> bool" where
  "ev_confirmed e chn t =
     ((case listedTx e chn (Txid t) of None \<Rightarrow> False | Some lt \<Rightarrow> t_confirmations lt > 0) \<or>
      (case nodes e of
         None \<Rightarrow> False
       | Some nds \<Rightarrow> (case confirmedOn (nds chn) of
           None \<Rightarrow> False
         | Some f \<Rightarrow> list_ex f (Signed t) \<or> f (Txid t))))"

definition ev_shallow :: "chainEvidence \<Rightarrow> string \<Rightarrow> loggedTx \<Rightarrow> bool" where
  "ev_shallow e chn t =
     (if chn \<noteq> chainDogecoin \<or> deep e \<le> 1 then False
      else case listedTx e chn (Txid t) of None \<Rightarrow> True | Some lt \<Rightarrow> t_confirmations lt < deep e)"

definition spentDeep :: "chainEvidence \<Rightarrow> string \<Rightarrow> loggedTx \<Rightarrow> OutPoint \<Rightarrow> bool" where
  "spentDeep e chn t op =
     (let need = (if chn = chainDogecoin \<and> deep e > 1 then deep e else 1) in
      list_ex (\<lambda>(txid, lt). txid \<noteq> Txid t \<and> t_confirmations lt \<ge> need
         \<and> list_ex (\<lambda>ti. PreviousOutPoint ti = op) (TxIn (t_tx lt))) (get_or (listed e) chn []))"

definition spentElsewhere :: "chainEvidence \<Rightarrow> string \<Rightarrow> loggedTx \<Rightarrow> bool" where
  "spentElsewhere e chn t =
     (let ins = map OutPoint_String (List.map_filter parseOutPoint (Inputs t)) in
      list_ex (\<lambda>(txid, lt). t_confirmations lt > 0 \<and> txid \<noteq> Txid t
         \<and> list_ex (\<lambda>ti. OutPoint_String (PreviousOutPoint ti) \<in> set ins) (TxIn (t_tx lt))) (get_or (listed e) chn []))"

text \<open>\<open>learnSigned\<close>: the identifiers the chains list a logged transaction under.\<close>

definition learnTx :: "hashes \<Rightarrow> chainEvidence \<Rightarrow> loggedTx \<Rightarrow> loggedTx" where
  "learnTx H e t = foldl (\<lambda>t (chn, byID). case lookup byID (Txid t) of
      None \<Rightarrow> t
    | Some lt \<Rightarrow> let txid = Hash_String (TxHash H (t_tx lt)) in
        if txid \<in> set (Signed t) then t else t\<lparr>Signed := Signed t @ [txid]\<rparr>) t (listed e)"

definition learnSigned :: "hashes \<Rightarrow> chainEvidence \<Rightarrow> signingLog \<Rightarrow> signingLog" where
  "learnSigned H e l = l\<lparr>Actions := map (\<lambda>(k, a). (k, a\<lparr>Txs := map (learnTx H e) (Txs a)\<rparr>)) (Actions l)\<rparr>"

definition releasesDead :: "signingLog \<Rightarrow> chainEvidence \<Rightarrow> OutPoint \<Rightarrow> bool" where
  "releasesDead l e op = (case lookup (Actions l) (actionRelease @ '':'' @ OutPoint_String op) of
     None \<Rightarrow> True
   | Some a \<Rightarrow> list_all (\<lambda>t. \<not> ev_confirmed e chainDogecoinVM t \<and> spentElsewhere e chainDogecoinVM t) (Txs a))"

definition releasesDeadOrConflicting :: "signingLog \<Rightarrow> chainEvidence \<Rightarrow> OutPoint \<Rightarrow> OutPoint \<Rightarrow> bool" where
  "releasesDeadOrConflicting l e op anchor = (case lookup (Actions l) (actionRelease @ '':'' @ OutPoint_String op) of
     None \<Rightarrow> True
   | Some a \<Rightarrow> list_all (\<lambda>t. \<not> ev_confirmed e chainDogecoinVM t
       \<and> (spentElsewhere e chainDogecoinVM t \<or> OutPoint_String anchor \<in> set (Inputs t))) (Txs a))"

section \<open>Checks against the log\<close>

definition says :: "('a \<Rightarrow> bool) option \<Rightarrow> 'a \<Rightarrow> bool" where
  "says f x = (case f of None \<Rightarrow> False | Some g \<Rightarrow> g x)"

text \<open>\<open>permit\<close>: an earlier transaction of the action that could still confirm must share an input.\<close>

definition prevLive :: "OutPoint list \<Rightarrow> (OutPoint \<Rightarrow> bool) option \<Rightarrow> loggedTx \<Rightarrow> bool" where
  "prevLive unspents inChain prev = list_all (\<lambda>i. case parseOutPoint i of
     None \<Rightarrow> False | Some op \<Rightarrow> op \<in> set unspents \<or> says inChain op) (Inputs prev)"

definition conflicting :: "MsgTx \<Rightarrow> loggedTx \<Rightarrow> bool" where
  "conflicting tx prev = list_ex (\<lambda>i. i \<in> set (inputTexts tx)) (Inputs prev)"

definition permit :: "signingLog \<Rightarrow> string \<Rightarrow> string \<Rightarrow> MsgTx \<Rightarrow> OutPoint list \<Rightarrow> chainEvidence option \<Rightarrow>
    (OutPoint \<Rightarrow> bool) option \<Rightarrow> cerr + unit" where
  "permit l key chn tx unspents ev inChain = (case lookup (Actions l) key of
     None \<Rightarrow> Inr ()
   | Some a \<Rightarrow>
       if list_ex (\<lambda>prev. case ev of None \<Rightarrow> False | Some e \<Rightarrow> ev_confirmed e chn prev) (Txs a) then Inl AlreadyInBlock
       else if list_ex (\<lambda>prev. prevLive unspents inChain prev \<and> \<not> conflicting tx prev) (Txs a) then Inl CouldConfirmBeside
       else Inr ())"

fun followAnchor :: "hashes \<Rightarrow> (OutPoint \<Rightarrow> bool) option \<Rightarrow> lineage \<Rightarrow> nat \<Rightarrow> OutPoint \<Rightarrow> OutPoint \<Rightarrow> cerr + unit" where
  "followAnchor H inChain line 0 cur want = Inl TrailTooLong"
| "followAnchor H inChain line (Suc n) cur want =
     (if cur = want then Inr ()
      else case line_next H line cur of
        Inl e \<Rightarrow> Inl (Failed e)
      | Inr (next, again) \<Rightarrow>
          if \<not> again then Inl (if says inChain cur then AnchorUnspent else AnchorGone)
          else followAnchor H inChain line n next want)"

definition anchorMoved :: "hashes \<Rightarrow> signingLog \<Rightarrow> string \<Rightarrow> MsgTx \<Rightarrow> (OutPoint \<Rightarrow> bool) option \<Rightarrow> lineage option \<Rightarrow> cerr + unit" where
  "anchorMoved H l chn tx inChain line = (case TxIn tx of
     [] \<Rightarrow> Inr ()
   | ti # tis \<Rightarrow>
       let last = get_or (Anchors l) chn [] in
       if last = [] then Inl AnchorUnset
       else case parseOutPoint last of
         None \<Rightarrow> Inl BadAnchor
       | Some cur \<Rightarrow> (case line of
           None \<Rightarrow> Inl NoLine
         | Some ln \<Rightarrow> followAnchor H inChain ln (length (l_coins ln) + 2) cur (PreviousOutPoint ti)))"

text \<open>The surplus promised for one action, and for all but one.\<close>

definition feeLive :: "OutPoint list \<Rightarrow> chainEvidence option \<Rightarrow> (string \<Rightarrow> OutPoint \<Rightarrow> bool) option \<Rightarrow> loggedTx \<Rightarrow> bool" where
  "feeLive known ev inChain t = list_all (\<lambda>i. case parseOutPoint i of
     None \<Rightarrow> False
   | Some op \<Rightarrow> op \<in> set known \<or> (case inChain of None \<Rightarrow> False | Some f \<Rightarrow> f (Chain t) op)
       \<or> (case ev of None \<Rightarrow> True | Some e \<Rightarrow> \<not> spentDeep e (Chain t) t op)) (Inputs t)"

definition worstFee :: "loggedTx list \<Rightarrow> int" where
  "worstFee txs = foldl (\<lambda>worst t. max worst (Fee t)) 0 txs"

definition unseenOf :: "OutPoint list \<Rightarrow> chainEvidence option \<Rightarrow> (string \<Rightarrow> OutPoint \<Rightarrow> bool) option \<Rightarrow> loggedAction \<Rightarrow> int" where
  "unseenOf known ev inChain a =
     (case List.find (\<lambda>t. Fee t > 0 \<and> (case ev of None \<Rightarrow> False | Some e \<Rightarrow> ev_confirmed e (Chain t) t)) (Txs a) of
        Some t \<Rightarrow> (case ev of
           None \<Rightarrow> 0
         | Some e \<Rightarrow> if \<not> ev_shallow e (Chain t) t then 0 else max (worstFee (Txs a) - Fee t) 0)
      | None \<Rightarrow> foldl (\<lambda>most t. if Fee t \<le> 0 \<or> Fee t \<le> most then most
                              else if feeLive known ev inChain t then Fee t else most) 0 (Txs a))"

definition unseenFees :: "signingLog \<Rightarrow> OutPoint list \<Rightarrow> chainEvidence option \<Rightarrow> (string \<Rightarrow> OutPoint \<Rightarrow> bool) option \<Rightarrow> string \<Rightarrow> int" where
  "unseenFees l known ev inChain except =
     foldl (\<lambda>n (k, a). if k = except then n else n + unseenOf known ev inChain a) 0 (Actions l)"

section \<open>Keys\<close>

lemmas action_kinds = actionRelease_def actionPayout_def actionRefund_def actionCancel_def actionFence_def

text \<open>What an action is about: a deposit or coin, or a peg-out.\<close>

definition actionTarget :: "action \<Rightarrow> (OutPoint + bytes) option" where
  "actionTarget a = (if Kind a = actionPayout then map_option Inr (NewHashFromStr (PegOut a))
     else map_option Inl (parseOutPoint (Deposit a)))"

definition targetText :: "OutPoint + bytes \<Rightarrow> string" where
  "targetText t = (case t of Inl op \<Rightarrow> OutPoint_String op | Inr h \<Rightarrow> Hash_String h)"

lemma cut_unique: "sep \<notin> set a \<Longrightarrow> sep \<notin> set a' \<Longrightarrow> a @ sep # b = a' @ sep # b' \<longleftrightarrow> a = a' \<and> b = b'"
proof (induction a arbitrary: a')
  case Nil
  then show ?case by (cases a') auto
next
  case (Cons x a)
  then show ?case by (cases a') auto
qed

lemma length_NewHashFromStr: "NewHashFromStr s = Some h \<Longrightarrow> length h = HashSize"
proof -
  assume "NewHashFromStr s = Some h"
  moreover have "parseUint 32 ''0'' = Some 0" by (simp add: parseUint_def undigit_def)
  ultimately show ?thesis
    using wf_parseOutPoint [of "s @ '':0''"] by (simp add: parseOutPoint_def wf_OutPoint_def)
qed

lemma action_key_Inr:
  assumes "action_key a = Inr k"
  obtains t where "actionTarget a = Some t" "k = Kind a @ CHR '':'' # targetText t" "CHR '':'' \<notin> set (Kind a)"
    "Kind a = actionPayout \<longrightarrow> (\<exists>h. t = Inr h \<and> length h = HashSize)"
    "Kind a \<noteq> actionPayout \<longrightarrow> (\<exists>op. t = Inl op \<and> wf_OutPoint op)"
    "Kind a \<in> {actionRelease, actionRefund, actionCancel, actionFence, actionPayout}"
  using assms wf_parseOutPoint length_NewHashFromStr
  by (auto simp: action_key_def actionTarget_def targetText_def action_kinds split: if_splits option.splits)

lemma canonicalKey_action_key:
  assumes "action_key a = Inr k"
  shows "canonicalKey k = Inr k"
proof -
  obtain t where t: "actionTarget a = Some t" "k = Kind a @ CHR '':'' # targetText t" "CHR '':'' \<notin> set (Kind a)"
    "Kind a = actionPayout \<longrightarrow> (\<exists>h. t = Inr h \<and> length h = HashSize)"
    "Kind a \<noteq> actionPayout \<longrightarrow> (\<exists>op. t = Inl op \<and> wf_OutPoint op)"
    "Kind a \<in> {actionRelease, actionRefund, actionCancel, actionFence, actionPayout}"
    by (rule action_key_Inr [OF assms])
  from t(4-6) show ?thesis
    by (cases "Kind a = actionPayout")
       (auto simp: t(2) t(3) canonicalKey_def action_key_def targetText_def action_kinds)
qed

section \<open>Reading a log back\<close>

lemma normalizeLoop_txs:
  assumes "normalizeLoop raw m = Inr acts"
  shows "(\<exists>a. lookup acts k = Some a \<and> t \<in> set (Txs a)) \<longleftrightarrow>
    (\<exists>a. lookup m k = Some a \<and> t \<in> set (Txs a)) \<or>
    (\<exists>rk a. (rk, Some a) \<in> set raw \<and> canonicalKey rk = Inr k \<and> t \<in> set (Txs a))"
  using assms
proof (induction raw m rule: normalizeLoop.induct)
  case (3 rawKey logged rest m)
  from "3.prems" obtain key where key: "canonicalKey rawKey = Inr key" by (auto split: sum.splits)
  show ?case
  proof (cases "lookup m key")
    case None
    with "3.IH"(1) [OF key None] "3.prems" key show ?thesis by auto
  next
    case (Some existing)
    with "3.prems" key have v: "\<not> LValue existing \<noteq> LValue logged" by (auto split: if_splits)
    with "3.IH"(2) [OF key Some v] "3.prems" key Some show ?thesis by auto
  qed
qed simp_all

lemma normalizeLoop_value:
  assumes "normalizeLoop raw m = Inr acts" "lookup m k = Some a"
  shows "\<exists>b. lookup acts k = Some b \<and> LValue b = LValue a \<and> First b \<le> First a"
  using assms
proof (induction raw m arbitrary: a rule: normalizeLoop.induct)
  case (3 rawKey logged rest m)
  from "3.prems" obtain key where key: "canonicalKey rawKey = Inr key" by (auto split: sum.splits)
  show ?case
  proof (cases "lookup m key")
    case None
    with "3.IH"(1) [OF key None, of a] "3.prems" key show ?thesis by (cases "k = key") auto
  next
    case (Some existing)
    with "3.prems" key have v: "\<not> LValue existing \<noteq> LValue logged" by (auto split: if_splits)
    with "3.IH"(2) [OF key Some v, of "if k = key then existing\<lparr>First := min (First existing) (First logged),
       Txs := Txs existing @ Txs logged\<rparr> else a"] "3.prems" key Some show ?thesis by (cases "k = key") auto
  qed
qed simp_all

lemma normalizeLoop_each:
  assumes "normalizeLoop raw m = Inr acts" "(rk, Some a) \<in> set raw"
  shows "\<exists>k b. canonicalKey rk = Inr k \<and> lookup acts k = Some b \<and> LValue b = LValue a \<and> First b \<le> First a"
  using assms
proof (induction raw m rule: normalizeLoop.induct)
  case (3 rawKey logged rest m)
  from "3.prems" obtain key where key: "canonicalKey rawKey = Inr key" by (auto split: sum.splits)
  show ?case
  proof (cases "lookup m key")
    case None
    with "3.IH"(1) [OF key None] normalizeLoop_value [of rest "store m key logged" acts key logged] "3.prems" key
    show ?thesis by auto
  next
    case (Some existing)
    with "3.prems" key have v: "\<not> LValue existing \<noteq> LValue logged" by (auto split: if_splits)
    let ?b = "existing\<lparr>First := min (First existing) (First logged), Txs := Txs existing @ Txs logged\<rparr>"
    from "3.IH"(2) [OF key Some v] normalizeLoop_value [of rest "store m key ?b" acts key ?b] "3.prems" key Some v
    show ?thesis by auto
  qed
qed simp_all

lemma lookup_notin: "k \<notin> fst ` set m \<Longrightarrow> lookup m k = None"
  by (simp add: lookup_def map_of_eq_None_iff)

lemma store_new: "k \<notin> fst ` set m \<Longrightarrow> store m k v = m @ [(k, v)]"
  unfolding store_def by (induction m) auto

lemma keys_store: "fst ` set (store m k v) = insert k (fst ` set m)"
  unfolding store_def by (simp add: dom_update)

lemma distinct_store: "distinct (map fst m) \<Longrightarrow> distinct (map fst (store m k v))"
  unfolding store_def by (rule distinct_update)

lemma normalizeLoop_canonical:
  "list_all (\<lambda>(k, a). canonicalKey k = Inr k) acts \<Longrightarrow> distinct (map fst (m @ acts)) \<Longrightarrow>
   normalizeLoop (map (\<lambda>(k, a). (k, Some a)) acts) m = Inr (m @ acts)"
proof (induction acts arbitrary: m)
  case (Cons ka acts)
  obtain k a where ka: "ka = (k, a)" by (cases ka)
  from Cons.prems ka have "k \<notin> fst ` set m" by auto
  with Cons.prems ka Cons.IH [of "m @ [(k, a)]"] show ?case by (simp add: lookup_notin store_new)
qed simp

text \<open>A log in canonical form: distinct keys, each the key of an action.\<close>

definition canonicalLog :: "signingLog \<Rightarrow> bool" where
  "canonicalLog l \<longleftrightarrow> list_all (\<lambda>(k, a). canonicalKey k = Inr k) (Actions l) \<and> distinct (map fst (Actions l))"

lemma canonicalLog_iff: "canonicalLog l \<longleftrightarrow> (\<forall>k \<in> fst ` set (Actions l). canonicalKey k = Inr k) \<and> distinct (map fst (Actions l))"
  by (auto simp: canonicalLog_def list_all_iff)

lemma canonicalLog_create: "canonicalLog createSigningLog"
  by (simp add: canonicalLog_def createSigningLog_def)

lemma Actions_log_record: "Actions (log_record H now key chn tx value fee l) =
  store (Actions l) key (let a = get_or (Actions l) key \<lparr>LValue = value, First = now, Txs = []\<rparr> in
    a\<lparr>Txs := Txs a @ [\<lparr>Txid = Hash_String (TxHash H tx), Signed = [], Inputs = inputTexts tx, Chain = chn,
      Fee = (if fee > 0 then fee else 0)\<rparr>]\<rparr>)"
  by (simp add: log_record_def Let_def)

lemma log_record_simps [simp]:
  "History (log_record H now key chn tx value fee l) = History l"
  "Cutover (log_record H now key chn tx value fee l) = Cutover l"
  "CutoverEpoch (log_record H now key chn tx value fee l) = CutoverEpoch l"
  "FenceBudget (log_record H now key chn tx value fee l) = FenceBudget l"
  "FenceCapital (log_record H now key chn tx value fee l) = FenceCapital l"
  by (simp_all add: log_record_def Let_def)

lemma canonicalLog_record:
  "canonicalLog l \<Longrightarrow> action_key a = Inr key \<Longrightarrow> canonicalLog (log_record H now key chn tx value fee l)"
  using canonicalKey_action_key
  unfolding canonicalLog_iff Actions_log_record keys_store by (auto intro: distinct_store)

section \<open>What the checks against the log establish\<close>

lemma permit_Inr:
  assumes "permit l key chn tx unspents (Some e) inChain = Inr ()" "lookup (Actions l) key = Some a" "prev \<in> set (Txs a)"
  shows "\<not> ev_confirmed e chn prev"
    and "conflicting tx prev \<or> (\<exists>i \<in> set (Inputs prev). \<forall>op. parseOutPoint i = Some op \<longrightarrow>
           op \<notin> set unspents \<and> \<not> says inChain op)"
  using assms by (auto simp: permit_def prevLive_def list_ex_iff list_all_iff split: if_splits option.splits)

text \<open>One step along a line: a confirmed transaction spends the coin and pays back to the script.\<close>

definition lineStep :: "hashes \<Rightarrow> lineage \<Rightarrow> OutPoint \<Rightarrow> OutPoint \<Rightarrow> bool" where
  "lineStep H line a b \<longleftrightarrow> line_next H line a = Inr (b, True)"

lemma followAnchor_reaches:
  "followAnchor H inChain line n cur want = Inr () \<Longrightarrow> (lineStep H line)\<^sup>*\<^sup>* cur want"
proof (induction n arbitrary: cur)
  case (Suc n)
  then show ?case
    by (cases "cur = want")
       (auto simp: lineStep_def split: sum.splits prod.splits if_splits intro: converse_rtranclp_into_rtranclp)
qed simp

lemma anchorMoved_Inr:
  assumes "anchorMoved H l chn tx inChain (Some line) = Inr ()" "TxIn tx \<noteq> []"
  obtains cur where "parseOutPoint (get_or (Anchors l) chn []) = Some cur"
    "(lineStep H line)\<^sup>*\<^sup>* cur (PreviousOutPoint (hd (TxIn tx)))"
  using assms followAnchor_reaches
  by (cases "TxIn tx") (auto simp: anchorMoved_def Let_def simp del: followAnchor.simps split: if_splits option.splits)

lemma lineStep_spent: "lineStep H line a b \<Longrightarrow> \<exists>t. lookup (spentBy line) a = Some t"
  by (auto simp: lineStep_def line_next_def split: option.splits)

text \<open>The fees promised for one action.\<close>

lemma worst_foldl: "foldl (\<lambda>w t. max w (Fee t)) n txs \<ge> n \<and> (\<forall>t \<in> set txs. Fee t \<le> foldl (\<lambda>w t. max w (Fee t)) n txs)"
proof (induction txs arbitrary: n)
  case (Cons t txs)
  from Cons.IH [of "max n (Fee t)"] show ?case by auto
qed simp

lemma worstFee_nonneg: "0 \<le> worstFee txs"
  using worst_foldl [of 0 txs] by (simp add: worstFee_def)

lemma worstFee_ge: "t \<in> set txs \<Longrightarrow> Fee t \<le> worstFee txs"
  using worst_foldl [of 0 txs] by (simp add: worstFee_def)

lemma most_foldl:
  fixes P :: "loggedTx \<Rightarrow> bool"
  defines "f \<equiv> \<lambda>most t. if Fee t \<le> 0 \<or> Fee t \<le> most then most else if P t then Fee t else most"
  shows "n \<le> foldl f n txs \<and> (\<forall>t \<in> set txs. P t \<longrightarrow> 0 < Fee t \<longrightarrow> Fee t \<le> foldl f n txs)"
proof (induction txs arbitrary: n)
  case (Cons t txs)
  have "n \<le> f n t" "P t \<Longrightarrow> 0 < Fee t \<Longrightarrow> Fee t \<le> f n t" by (auto simp: f_def)
  with Cons.IH [of "f n t"] show ?case by (auto intro: order_trans)
qed simp

lemma unseenOf_nonneg: "0 \<le> unseenOf known ev inChain a"
  using most_foldl [where n = 0 and P = "feeLive known ev inChain" and txs = "Txs a"]
  by (auto simp: unseenOf_def split: option.splits)

text \<open>The signer still owes the fee of a transaction that can confirm and has no alternative in a block.\<close>

definition feeOpen :: "OutPoint list \<Rightarrow> chainEvidence \<Rightarrow> (string \<Rightarrow> OutPoint \<Rightarrow> bool) option \<Rightarrow> loggedAction \<Rightarrow> loggedTx \<Rightarrow> bool" where
  "feeOpen known e inChain a t \<longleftrightarrow> t \<in> set (Txs a) \<and> 0 < Fee t \<and> feeLive known (Some e) inChain t
     \<and> list_all (\<lambda>t. Fee t > 0 \<longrightarrow> \<not> ev_confirmed e (Chain t) t) (Txs a)"

lemma unseenOf_covers: "feeOpen known e inChain a t \<Longrightarrow> Fee t \<le> unseenOf known (Some e) inChain a"
proof -
  assume o: "feeOpen known e inChain a t"
  then have "List.find (\<lambda>t. Fee t > 0 \<and> ev_confirmed e (Chain t) t) (Txs a) = None"
    by (auto simp: feeOpen_def find_None_iff list_all_iff)
  with o most_foldl [where n = 0 and P = "feeLive known (Some e) inChain" and txs = "Txs a"] show ?thesis
    by (auto simp: unseenOf_def feeOpen_def)
qed

lemma foldl_cond_sum: "foldl (\<lambda>n (k, a). if k = x then n else n + f a) n acts
  = n + sum_list (map (f \<circ> snd) (filter (\<lambda>(k, a). k \<noteq> x) acts))" for n :: int
  by (induction acts arbitrary: n) (auto simp: case_prod_beta)

lemma unseenFees_sum: "unseenFees l known ev inChain except
  = sum_list (map (unseenOf known ev inChain \<circ> snd) (filter (\<lambda>(k, a). k \<noteq> except) (Actions l)))"
  unfolding unseenFees_def foldl_cond_sum by simp

section \<open>Samples\<close>

definition sampleAction :: action where
  "sampleAction = \<lparr>Kind = actionCancel, Deposit = OutPoint_String sampleRef, PegOut = [], To = []\<rparr>"

definition sampleKey :: string where
  "sampleKey = actionCancel @ '':'' @ OutPoint_String sampleRef"

definition sampleSpend :: MsgTx where
  "sampleSpend = unsignedTx (t_tx samplePayout)"

definition sampleLog :: signingLog where
  "sampleLog = log_record sampleHashes 1000 sampleKey chainDogecoinVM sampleSpend 500 7 createSigningLog"

lemma sampleKey: "action_key sampleAction = Inr sampleKey"
  by code_simp

lemma sampleLog_eval:
  "length (Txs (the (lookup (Actions sampleLog) sampleKey))) = 1" "Inputs (hd (Txs (the (lookup (Actions sampleLog) sampleKey)))) \<noteq> []"
  "Fee (hd (Txs (the (lookup (Actions sampleLog) sampleKey)))) = 7"
  "unseenFees sampleLog [] (Some \<lparr>listed = [], nodes = None, deep = 0\<rparr>) None [] = 7"
  "Actions sampleLog \<noteq> []"
  by code_simp+

lemma sampleLog_keys: "length (Actions sampleLog) = 1 \<and> fst (hd (Actions sampleLog)) \<noteq> []"
  by code_simp

lemma sampleLog_open: "list_all (\<lambda>(k, a). feeOpen [] \<lparr>listed = [], nodes = None, deep = 0\<rparr> None a
    (hd (Txs (the (lookup (Actions sampleLog) sampleKey))))) (Actions sampleLog)"
  by code_simp

section \<open>Properties\<close>

text \<open>C20: an action's key names the kind of the action and what it is about, whatever the spelling: two
  actions have the same key exactly when both agree.\<close>

theorem key_names_action:
  assumes "action_key a = Inr k" "action_key a' = Inr k'"
  shows "k = k' \<longleftrightarrow> Kind a = Kind a' \<and> actionTarget a = actionTarget a'"
proof -
  obtain t where t: "actionTarget a = Some t" "k = Kind a @ CHR '':'' # targetText t" "CHR '':'' \<notin> set (Kind a)"
    "Kind a = actionPayout \<longrightarrow> (\<exists>h. t = Inr h \<and> length h = HashSize)"
    "Kind a \<noteq> actionPayout \<longrightarrow> (\<exists>op. t = Inl op \<and> wf_OutPoint op)"
    "Kind a \<in> {actionRelease, actionRefund, actionCancel, actionFence, actionPayout}"
    by (rule action_key_Inr [OF assms(1)])
  obtain t' where t': "actionTarget a' = Some t'" "k' = Kind a' @ CHR '':'' # targetText t'" "CHR '':'' \<notin> set (Kind a')"
    "Kind a' = actionPayout \<longrightarrow> (\<exists>h. t' = Inr h \<and> length h = HashSize)"
    "Kind a' \<noteq> actionPayout \<longrightarrow> (\<exists>op. t' = Inl op \<and> wf_OutPoint op)"
    "Kind a' \<in> {actionRelease, actionRefund, actionCancel, actionFence, actionPayout}"
    by (rule action_key_Inr [OF assms(2)])
  have "k = k' \<longleftrightarrow> Kind a = Kind a' \<and> targetText t = targetText t'"
    unfolding t(2) t'(2) by (rule cut_unique [OF t(3) t'(3)])
  moreover have "targetText t = targetText t' \<longleftrightarrow> t = t'" if same: "Kind a = Kind a'"
  proof (cases "Kind a = actionPayout")
    case True
    then obtain h h' where "t = Inr h" "t' = Inr h'" using t(4) t'(4) same by metis
    then show ?thesis by (simp add: targetText_def)
  next
    case False
    then obtain op op' where "t = Inl op" "t' = Inl op'" "wf_OutPoint op" "wf_OutPoint op'" using t(5) t'(5) same by metis
    then show ?thesis by (simp add: targetText_def OutPoint_String_inj)
  qed
  moreover have "actionTarget a = actionTarget a' \<longleftrightarrow> t = t'" by (simp add: t(1) t'(1))
  ultimately show ?thesis by blast
qed

text \<open>Two spellings of one index.\<close>

theorem key_names_action_witness:
  "action_key \<lparr>Kind = actionCancel, Deposit = ''ab:00'', PegOut = [], To = []\<rparr>
     = action_key \<lparr>Kind = actionCancel, Deposit = ''AB:0'', PegOut = [], To = []\<rparr>"
proof -
  let ?a = "\<lparr>Kind = actionCancel, Deposit = ''ab:00'', PegOut = [], To = []\<rparr>"
  let ?b = "\<lparr>Kind = actionCancel, Deposit = ''AB:0'', PegOut = [], To = []\<rparr>"
  have ok: "is_ok (action_key ?a) \<and> is_ok (action_key ?b) \<and> actionTarget ?a = actionTarget ?b" by code_simp
  then obtain k k' where "action_key ?a = Inr k" "action_key ?b = Inr k'" by (auto simp: is_ok_iff)
  with key_names_action [of ?a k ?b k'] ok show ?thesis by simp
qed







end
