(* ===== verification/Cutover.thy ===== *)
theory Cutover
  imports SigningLog "HOL-Library.Product_Lexorder"
begin

text \<open>
  Cutovers and fences, \<open>cmd/dogevm/cutover.go\<close>: how a signer whose log cannot prove its past
  records every coin an old signature could spend, and spends them back to the set until all are cleared.
  The coins a cutover has recorded are texts of outpoints, as the log keeps them.
\<close>

section \<open>The signer and what a request sees\<close>

record cosigner =
  c_bridge :: bridge
  c_key :: bytes
  c_log :: signingLog
  c_path :: string
  c_maxDaily :: int
  c_maxRegistrations :: int
  c_registered :: "int list"
  c_registry :: "destination list"
  c_fenceFee :: int
  c_mine :: "(bytes, bool) gomap"
  c_marker :: fileRead

text \<open>
  What the outside answers during one request: the clock in seconds, whether files can be written, the registry
  read and an address watched, the pause file, the two nodes, the Dogecoin node after it imported transactions
  (absent when it cannot), the operator's files, and what an address text of the Dogecoin network stands for.
\<close>

record env =
  e_now :: int
  e_writes :: bool
  e_reads :: bool
  e_watches :: bool
  e_pause :: fileRead
  e_vm :: chain
  e_doge :: chain
  e_import :: "(bytes list \<Rightarrow> chain) option"
  e_listed :: fileRead
  e_approvals :: "fileRead option"
  e_address :: "string \<Rightarrow> destination option"

type_synonym 'a signer = "(cosigner, cerr, 'a) effect"

definition writeLog :: "env \<Rightarrow> unit signer" where
  "writeLog e = guardm (e_writes e) WriteFailed"

definition setLog :: "(signingLog \<Rightarrow> signingLog) \<Rightarrow> unit signer" where
  "setLog f = modifym (\<lambda>c. c\<lparr>c_log := f (c_log c)\<rparr>)"

definition inSet :: "ecdsa \<Rightarrow> cosigner \<Rightarrow> bool" where
  "inSet E c = (indexOf (signers (c_bridge c)) (pubOf E (c_key c)) \<noteq> None)"

section \<open>One chain as a cutover reads it\<close>

definition parseFence :: "MsgTx \<Rightarrow> OutPoint option" where
  "parseFence tx = parseOutPointTag tx tagFence"

definition encodeFence :: "OutPoint \<Rightarrow> bytes" where
  "encodeFence anchor = encodeOutPointTag tagFence anchor"

record chainView =
  v_txs :: "chainTx list"
  v_conflicted :: "chainTx list"
  v_depth :: int
  v_coinScripts :: "bytes list"
  v_spentAt :: "(OutPoint, int) gomap"
  v_conflictDepth :: "(bytes, int) gomap"
  v_funding :: "(bytes, chainTx) gomap"

definition isCoin :: "chainView \<Rightarrow> TxOut \<Rightarrow> bool" where
  "isCoin v out = (PkScript out \<in> set (v_coinScripts v))"

definition spentAtOf :: "chainTx list \<Rightarrow> (OutPoint, int) gomap" where
  "spentAtOf txs = foldl (\<lambda>m t. if t_confirmations t \<le> 0 then m
     else foldl (\<lambda>m ti. store m (PreviousOutPoint ti) (max (get_or m (PreviousOutPoint ti) 0) (t_confirmations t))) m (TxIn (t_tx t)))
     [] txs"

definition conflictDepthOf :: "hashes \<Rightarrow> chainTx list \<Rightarrow> (bytes, int) gomap" where
  "conflictDepthOf H txs = foldl (\<lambda>m t. let h = TxHash H (t_tx t) in
     store m h (max (get_or m h 0) (- t_confirmations t))) [] txs"

definition fundingOf :: "hashes \<Rightarrow> chainTx list \<Rightarrow> (bytes, chainTx) gomap" where
  "fundingOf H txs = foldl (\<lambda>m t. store m (TxHash H (t_tx t)) t) [] txs"

definition state_view :: "hashes \<Rightarrow> pegState \<Rightarrow> string \<Rightarrow> chainView" where
  "state_view H s chn =
     (let vm = (chn = chainDogecoinVM);
          txs = (if vm then vmTxs s else dogeTxs s);
          conflicted = (if vm then [] else dogeConflicted s);
          scr = l_script (reserveLine s) in
      \<lparr>v_txs = txs, v_conflicted = conflicted,
       v_depth = (if vm then 1 else max (rootDepth (pegLine s)) 1),
       v_coinScripts = (if vm then (if scr = [] then [] else [scr]) else map fst (redeemFor s)),
       v_spentAt = spentAtOf txs, v_conflictDepth = conflictDepthOf H conflicted,
       v_funding = fundingOf H (txs @ conflicted)\<rparr>)"

definition cleared :: "chainView \<Rightarrow> OutPoint \<Rightarrow> bool" where
  "cleared v op = (get_or (v_spentAt v) op 0 \<ge> v_depth v \<or> get_or (v_conflictDepth v) (Hash op) 0 \<ge> v_depth v)"

section \<open>Recording coins\<close>

definition historyCoins :: "hashes \<Rightarrow> string \<Rightarrow> chainView \<Rightarrow> OutPoint list" where
  "historyCoins H chn v = concat (map (\<lambda>t.
     if chn = chainDogecoinVM \<and> t_confirmations t \<le> 0 then []
     else map fst (filter (\<lambda>(op, out). isCoin v out \<and> \<not> cleared v op) (outputs H (t_tx t)))) (v_txs v @ v_conflicted v))"

text \<open>The chain an old log entry was for is where its funding is listed.\<close>

definition inputChain :: "(string \<times> chainView) list \<Rightarrow> loggedTx \<Rightarrow> OutPoint \<Rightarrow> string option" where
  "inputChain views t op = (if Chain t \<noteq> [] then Some (Chain t)
     else map_option fst (List.find (\<lambda>(chn, v). has_key (v_funding v) (Hash op)) views))"

definition loggedCoin :: "(string \<times> chainView) list \<Rightarrow> loggedTx \<Rightarrow> string \<Rightarrow> cerr + (string \<times> OutPoint) list" where
  "loggedCoin views t raw = (case parseOutPoint raw of
     None \<Rightarrow> Inl BadLoggedInput
   | Some op \<Rightarrow> (case inputChain views t op of
       None \<Rightarrow> Inl UnknownFunding
     | Some chn \<Rightarrow> (case lookup views chn of
         None \<Rightarrow> Inl UnknownFunding
       | Some v \<Rightarrow> if \<not> has_key (v_funding v) (Hash op) then Inl UnknownFunding
                   else Inr (if cleared v op then [] else [(chn, op)]))))"

definition cutoverCoins :: "hashes \<Rightarrow> pegState \<Rightarrow> signingLog \<Rightarrow> cerr + (string, string list) gomap" where
  "cutoverCoins H s l =
     (let views = map (\<lambda>chn. (chn, state_view H s chn)) cutoverChains in
      bindr (collect (concat (map (\<lambda>(k, a). concat (map (\<lambda>t. map (loggedCoin views t) (Inputs t)) (Txs a))) (Actions l)))) (\<lambda>logged.
      Inr (map (\<lambda>(chn, v). (chn, sort (remdups (map OutPoint_String
         (historyCoins H chn v @ map snd (filter (\<lambda>(c, op). c = chn) (concat logged))))))) views)))"

definition beginCutover :: "int \<Rightarrow> (string, string list) gomap \<Rightarrow> signingLog \<Rightarrow> signingLog" where
  "beginCutover now coins l = l\<lparr>
     Cutover := foldl (\<lambda>m chn. store m chn (sort (remdups (get_or (Cutover l) chn [] @ get_or coins chn [])))) (Cutover l) cutoverChains,
     CutoverEpoch := CutoverEpoch l + 1, CutoverStarted := now\<rparr>"

definition startCutover :: "hashes \<Rightarrow> ecdsa \<Rightarrow> env \<Rightarrow> pegState \<Rightarrow> unit signer" where
  "startCutover H E e s =
     bindm (readm id) (\<lambda>c.
     bindm (guardm (inSet E c) NotInSet) (\<lambda>_.
     bindm (guardm (History (c_log c) = []) CutoverNotSupported) (\<lambda>_.
     bindm (liftm (cutoverCoins H s (c_log c))) (\<lambda>coins.
     bindm (setLog (beginCutover (e_now e) coins)) (\<lambda>_. writeLog e)))))"

section \<open>Progress of a cutover\<close>

definition unproven :: "signingLog \<Rightarrow> bool" where
  "unproven l = (History l = [] \<or> Cutover l \<noteq> [])"

definition uncleared :: "chainView \<Rightarrow> string \<Rightarrow> bool" where
  "uncleared v raw = (case parseOutPoint raw of None \<Rightarrow> True | Some op \<Rightarrow> \<not> cleared v op)"

definition cutoverLeft :: "hashes \<Rightarrow> pegState \<Rightarrow> signingLog \<Rightarrow> (string, string list) gomap" where
  "cutoverLeft H s l = filter (\<lambda>(chn, left). left \<noteq> [])
     (map (\<lambda>(chn, coins). (chn, filter (uncleared (state_view H s chn)) coins)) (Cutover l))"

definition cutoverPending :: "hashes \<Rightarrow> pegState \<Rightarrow> signingLog \<Rightarrow> (string, string list) gomap" where
  "cutoverPending H s l = filter (\<lambda>(chn, left). left \<noteq> [])
     (map (\<lambda>(chn, coins). (chn, filter (\<lambda>raw. case parseOutPoint raw of None \<Rightarrow> True
        | Some op \<Rightarrow> get_or (v_spentAt (state_view H s chn)) op 0 = 0 \<and> \<not> cleared (state_view H s chn) op) coins)) (Cutover l))"

text \<open>The tips of the two lines, by chain; a line with no root yet is left out.\<close>

definition tips :: "hashes \<Rightarrow> pegState \<Rightarrow> cerr + (string, string) gomap" where
  "tips H s = bindr (collect (map (\<lambda>(chn, line). case tip H line of
       Inl e \<Rightarrow> Inl (Failed e)
     | Inr None \<Rightarrow> Inr []
     | Inr (Some (t, r, m)) \<Rightarrow> Inr [(chn, OutPoint_String t)])
     [(chainDogecoin, pegLine s), (chainDogecoinVM, reserveLine s)])) (\<lambda>ts. Inr (concat ts))"

text \<open>
  \<open>advanceCutover\<close>: the finished log is marked as fenced before the tips are read, and stays so when
  reading them fails.
\<close>

definition advanceCutover :: "hashes \<Rightarrow> ecdsa \<Rightarrow> env \<Rightarrow> pegState \<Rightarrow> bool signer" where
  "advanceCutover H E e s =
     bindm (readm id) (\<lambda>c.
     if History (c_log c) = [] \<and> Cutover (c_log c) = [] \<and> \<not> inSet E c then retm False else
     bindm (if History (c_log c) = [] \<and> Cutover (c_log c) = [] then startCutover H E e s else retm ()) (\<lambda>_.
     bindm (readm c_log) (\<lambda>l.
     if Cutover l = [] then retm False else
     let left = cutoverLeft H s l; rest = filter (\<lambda>(chn, coins). get_or left chn [] \<noteq> []) (Cutover l) in
     if length rest = length (Cutover l) then retm False else
     bindm (setLog (\<lambda>l. l\<lparr>Cutover := rest\<rparr>)) (\<lambda>_.
     bindm (if rest = []
            then bindm (setLog (\<lambda>l. l\<lparr>History := historyFenced\<rparr>)) (\<lambda>_.
                 bindm (liftm (tips H s)) (\<lambda>t.
                 setLog (\<lambda>l. l\<lparr>Anchors := foldl (\<lambda>m (chn, tp). store m chn tp) (Anchors l) t\<rparr>)))
            else retm ()) (\<lambda>_.
     bindm (writeLog e) (\<lambda>_. retm True))))))"

definition cutoverGate :: "hashes \<Rightarrow> ecdsa \<Rightarrow> env \<Rightarrow> pegState \<Rightarrow> unit signer" where
  "cutoverGate H E e s =
     bindm (advanceCutover H E e s) (\<lambda>_. bindm (readm c_log) (\<lambda>l. guardm (\<not> unproven l) InCutover))"

section \<open>Maps with distinct keys\<close>

lemma lookup_filter:
  "distinct (map fst m) \<Longrightarrow> lookup (filter (\<lambda>(k, v). P k v) m) k = (case lookup m k of None \<Rightarrow> None | Some v \<Rightarrow> if P k v then Some v else None)"
proof (induction m)
  case (Cons kv m)
  obtain k' v where kv: "kv = (k', v)" by (cases kv)
  have "k \<notin> fst ` set m \<Longrightarrow> lookup m k = None" by (rule lookup_notin)
  with Cons kv show ?case by (auto split: option.split)
qed simp

lemma lookup_map: "lookup (map (\<lambda>(k, v). (k, f k v)) m) k = map_option (f k) (lookup m k)"
  by (induction m) auto

lemma map_fst_map: "map fst (map (\<lambda>(k, v). (k, f k v)) m) = map fst m"
  by (induction m) auto

lemma lookup_member: "distinct (map fst m) \<Longrightarrow> (k, v) \<in> set m \<Longrightarrow> lookup m k = Some v"
  by (simp add: lookup_def)

lemma get_or_cutoverLeft:
  assumes "distinct (map fst (Cutover l))"
  shows "get_or (cutoverLeft H s l) chn [] = filter (uncleared (state_view H s chn)) (get_or (Cutover l) chn [])"
proof -
  have "cutoverLeft H s l = filter (\<lambda>(chn, left). left \<noteq> [])
      (map (\<lambda>(chn, coins). (chn, (\<lambda>chn coins. filter (uncleared (state_view H s chn)) coins) chn coins)) (Cutover l))"
    by (simp add: cutoverLeft_def)
  moreover have "distinct (map fst (map (\<lambda>(chn, coins). (chn, (\<lambda>chn coins. filter (uncleared (state_view H s chn)) coins) chn coins)) (Cutover l)))"
    unfolding map_fst_map by (rule assms)
  ultimately have "lookup (cutoverLeft H s l) chn = (case lookup (Cutover l) chn of None \<Rightarrow> None | Some coins \<Rightarrow>
      if filter (uncleared (state_view H s chn)) coins \<noteq> [] then Some (filter (uncleared (state_view H s chn)) coins) else None)"
    by (simp only: lookup_filter lookup_map option.case_eq_if) (auto simp: option.case_eq_if)
  then show ?thesis by (simp add: get_or_def split: option.split)
qed

section \<open>What a cutover records\<close>

lemma keys_beginCutover: "fst ` set (Cutover (beginCutover now coins l)) = set cutoverChains \<union> fst ` set (Cutover l)"
  by (auto simp: beginCutover_def cutoverChains_def keys_store)

lemma distinct_beginCutover: "distinct (map fst (Cutover l)) \<Longrightarrow> distinct (map fst (Cutover (beginCutover now coins l)))"
  by (simp add: beginCutover_def cutoverChains_def distinct_store)

lemma beginCutover_recorded:
  "chn \<in> set cutoverChains \<Longrightarrow> set (get_or (Cutover (beginCutover now coins l)) chn [])
     = set (get_or (Cutover l) chn []) \<union> set (get_or coins chn [])"
  by (auto simp: beginCutover_def cutoverChains_def chainDogecoin_def chainDogecoinVM_def)

lemma beginCutover_Actions [simp]: "Actions (beginCutover now coins l) = Actions l" "History (beginCutover now coins l) = History l"
  by (simp_all add: beginCutover_def)

lemma collect_nth: "collect rs = Inr xs \<Longrightarrow> r \<in> set rs \<Longrightarrow> \<exists>x \<in> set xs. r = Inr x"
  by (auto simp: collect_Inr)

lemma lookup_views: "lookup (map (\<lambda>chn. (chn, f chn)) cutoverChains) chn = (if chn \<in> set cutoverChains then Some (f chn) else None)"
  by (simp add: cutoverChains_def)

lemma inputChain_known:
  "inputChain views t op = Some chn \<Longrightarrow> lookup views chn = Some v \<Longrightarrow> views = map (\<lambda>chn. (chn, f chn)) cutoverChains \<Longrightarrow>
   chn \<in> set cutoverChains \<and> v = f chn"
  by (auto simp: lookup_views split: if_splits)

text \<open>A logged input and where a cutover looks for it.\<close>

definition loggedAt :: "hashes \<Rightarrow> pegState \<Rightarrow> signingLog \<Rightarrow> string \<Rightarrow> OutPoint \<Rightarrow> bool" where
  "loggedAt H s l chn op \<longleftrightarrow> (\<exists>(k, a) \<in> set (Actions l). \<exists>t \<in> set (Txs a). \<exists>raw \<in> set (Inputs t).
     parseOutPoint raw = Some op \<and> inputChain (map (\<lambda>chn. (chn, state_view H s chn)) cutoverChains) t op = Some chn)"

lemma cutoverCoins_history:
  assumes "cutoverCoins H s l = Inr coins" "chn \<in> set cutoverChains" "op \<in> set (historyCoins H chn (state_view H s chn))"
  shows "OutPoint_String op \<in> set (get_or coins chn [])"
  using assms by (auto simp: cutoverCoins_def Let_def get_or_def cutoverChains_def chainDogecoin_def chainDogecoinVM_def)

lemma cutoverCoins_logged:
  assumes "cutoverCoins H s l = Inr coins" "loggedAt H s l chn op"
  shows "chn \<in> set cutoverChains" "cleared (state_view H s chn) op \<or> OutPoint_String op \<in> set (get_or coins chn [])"
proof -
  let ?views = "map (\<lambda>chn. (chn, state_view H s chn)) cutoverChains"
  let ?all = "concat (map (\<lambda>(k, a). concat (map (\<lambda>t. map (loggedCoin ?views t) (Inputs t)) (Txs a))) (Actions l))"
  obtain logged where lg: "collect ?all = Inr logged"
    and c: "coins = map (\<lambda>(chn, v). (chn, sort (remdups (map OutPoint_String
         (historyCoins H chn v @ map snd (filter (\<lambda>(c, op). c = chn) (concat logged))))))) ?views"
    using assms(1) by (auto simp: cutoverCoins_def Let_def)
  obtain k a t raw where t: "(k, a) \<in> set (Actions l)" "t \<in> set (Txs a)" "raw \<in> set (Inputs t)" "parseOutPoint raw = Some op"
    "inputChain ?views t op = Some chn" using assms(2) by (auto simp: loggedAt_def)
  then have "loggedCoin ?views t raw \<in> set ?all" by force
  then obtain x where x: "x \<in> set logged" "loggedCoin ?views t raw = Inr x" using collect_nth [OF lg] by blast
  then obtain v where v: "lookup ?views chn = Some v" "x = (if cleared v op then [] else [(chn, op)])"
    using t(4,5) by (auto simp: loggedCoin_def split: option.splits if_splits)
  from v(1) show chn: "chn \<in> set cutoverChains" by (auto simp: lookup_views split: if_splits)
  from v(1) have veq: "v = state_view H s chn" by (auto simp: lookup_views split: if_splits)
  show "cleared (state_view H s chn) op \<or> OutPoint_String op \<in> set (get_or coins chn [])"
  proof (cases "cleared v op")
    case False
    with v(2) x(1) have "[(chn, op)] \<in> set logged" by simp
    then have "(chn, op) \<in> set (concat logged)" by (auto intro: bexI [of _ "[(chn, op)]"])
    then have "op \<in> set (map snd (filter (\<lambda>(c, op). c = chn) (concat logged)))" by force
    moreover have "get_or coins chn [] = sort (remdups (map OutPoint_String
         (historyCoins H chn v @ map snd (filter (\<lambda>(c, op). c = chn) (concat logged)))))"
      using chn unfolding c get_or_def lookup_map by (simp add: lookup_views veq)
    ultimately show ?thesis by (simp only: set_sort set_remdups set_map set_append) blast
  qed (simp add: veq)
qed

lemma startCutover_Inr:
  assumes "startCutover H E e s c = (Inr (), c')"
  obtains coins where "cutoverCoins H s (c_log c) = Inr coins" "c' = c\<lparr>c_log := beginCutover (e_now e) coins (c_log c)\<rparr>"
    "inSet E c" "History (c_log c) = []"
  using assms by (auto simp: startCutover_def setLog_def writeLog_def)


text \<open>The coins of the signer set that a chain has seen.\<close>

definition setCoin :: "hashes \<Rightarrow> pegState \<Rightarrow> string \<Rightarrow> OutPoint \<Rightarrow> bool" where
  "setCoin H s chn op \<longleftrightarrow> (\<exists>t \<in> set (v_txs (state_view H s chn) @ v_conflicted (state_view H s chn)).
     (chn = chainDogecoinVM \<longrightarrow> t_confirmations t > 0) \<and> (\<exists>(op', out) \<in> set (outputs H (t_tx t)). op' = op \<and> isCoin (state_view H s chn) out))"

lemma setCoin_history:
  "setCoin H s chn op \<Longrightarrow> cleared (state_view H s chn) op \<or> op \<in> set (historyCoins H chn (state_view H s chn))"
  unfolding setCoin_def historyCoins_def by (auto simp: not_le split: if_splits) force+

section \<open>One step of a cutover\<close>

definition cutoverRest :: "hashes \<Rightarrow> pegState \<Rightarrow> signingLog \<Rightarrow> (string, string list) gomap" where
  "cutoverRest H s l = filter (\<lambda>(chn, coins). get_or (cutoverLeft H s l) chn [] \<noteq> []) (Cutover l)"

definition recordedOn :: "signingLog \<Rightarrow> string \<Rightarrow> string set" where
  "recordedOn l chn = set (get_or (Cutover l) chn [])"

lemma cutoverRest_recorded:
  assumes "distinct (map fst (Cutover l))" "raw \<in> recordedOn l chn" "Cutover l' = cutoverRest H s l"
  shows "raw \<in> recordedOn l' chn \<or> \<not> uncleared (state_view H s chn) raw"
proof (cases "get_or (cutoverLeft H s l) chn [] = []")
  case True
  with assms(2) show ?thesis unfolding get_or_cutoverLeft [OF assms(1)] by (auto simp: recordedOn_def filter_empty_conv)
next
  case False
  obtain coins where "lookup (Cutover l) chn = Some coins"
    using assms(2) by (cases "lookup (Cutover l) chn") (auto simp: recordedOn_def get_or_def)
  with False have "lookup (cutoverRest H s l) chn = Some coins"
    unfolding cutoverRest_def lookup_filter [OF assms(1)] by simp
  with assms(2,3) \<open>lookup (Cutover l) chn = Some coins\<close> show ?thesis by (simp add: recordedOn_def get_or_def)
qed

text \<open>The log when its coins are looked at: a cutover that was to start has started.\<close>

definition startedAs :: "hashes \<Rightarrow> env \<Rightarrow> pegState \<Rightarrow> signingLog \<Rightarrow> signingLog \<Rightarrow> bool" where
  "startedAs H e s l l1 \<longleftrightarrow> (if History l = [] \<and> Cutover l = []
     then \<exists>coins. cutoverCoins H s l = Inr coins \<and> l1 = beginCutover (e_now e) coins l else l1 = l)"

lemma startCutover_run:
  "startCutover H E e s c = (case (inSet E c, History (c_log c), cutoverCoins H s (c_log c)) of
     (False, _, _) \<Rightarrow> (Inl NotInSet, c)
   | (True, _ # _, _) \<Rightarrow> (Inl CutoverNotSupported, c)
   | (True, [], Inl x) \<Rightarrow> (Inl x, c)
   | (True, [], Inr coins) \<Rightarrow> (if e_writes e then Inr () else Inl WriteFailed, c\<lparr>c_log := beginCutover (e_now e) coins (c_log c)\<rparr>))"
  by (simp add: startCutover_def effect_run setLog_def writeLog_def split: list.split sum.split bool.split)

lemma advanceCutover_cases:
  assumes "advanceCutover H E e s c = (r, c')"
  shows "c' = c \<or> (\<exists>l1. startedAs H e s (c_log c) l1 \<and> (c_log c' = l1 \<or> Cutover (c_log c') = cutoverRest H s l1))"
proof (cases "History (c_log c) = [] \<and> Cutover (c_log c) = []")
  case True
  show ?thesis
  proof (cases "cutoverCoins H s (c_log c)")
    case (Inr coins)
    let ?l = "beginCutover (e_now e) coins (c_log c)"
    have "startedAs H e s (c_log c) ?l" using True Inr by (simp add: startedAs_def)
    moreover have "c' = c \<or> c_log c' = ?l \<or> Cutover (c_log c') = cutoverRest H s ?l"
      using assms True Inr
      by (simp add: advanceCutover_def effect_run startCutover_run Let_def setLog_def writeLog_def cutoverRest_def [symmetric]
          split: if_split_asm sum.split_asm) auto
    ultimately show ?thesis by blast
  qed (use assms True in \<open>simp add: advanceCutover_def effect_run startCutover_run split: if_split_asm\<close>)
next
  case False
  then have "startedAs H e s (c_log c) (c_log c)" by (auto simp: startedAs_def)
  moreover have "c_log c' = c_log c \<or> Cutover (c_log c') = cutoverRest H s (c_log c)"
    using assms False
    by (simp add: advanceCutover_def effect_run Let_def setLog_def writeLog_def cutoverRest_def [symmetric]
        split: if_split_asm sum.split_asm) auto
  ultimately show ?thesis by blast
qed


lemma startedAs_distinct:
  assumes "startedAs H e s l l1" "distinct (map fst (Cutover l))"
  shows "distinct (map fst (Cutover l1))" "raw \<in> recordedOn l chn \<Longrightarrow> raw \<in> recordedOn l1 chn"
  using assms by (auto simp: startedAs_def distinct_beginCutover recordedOn_def get_or_def split: if_splits)

lemma distinct_filter_keys: "distinct (map fst m) \<Longrightarrow> distinct (map fst (filter P m))"
  by (rule distinct_map_filter)

lemma recorded_distinct_step:
  assumes "advanceCutover H E e s c = (r, c')" "distinct (map fst (Cutover (c_log c)))"
  shows "distinct (map fst (Cutover (c_log c'))) \<and>
    (raw \<in> recordedOn (c_log c) chn \<longrightarrow> raw \<in> recordedOn (c_log c') chn \<or> \<not> uncleared (state_view H s chn) raw)"
  using advanceCutover_cases [OF assms(1)]
proof (elim disjE exE conjE)
  assume "c' = c"
  then show ?thesis using assms(2) by simp
next
  fix l1
  assume "startedAs H e s (c_log c) l1" "c_log c' = l1"
  then show ?thesis using startedAs_distinct assms(2) by blast
next
  fix l1
  assume l1: "startedAs H e s (c_log c) l1" and rest: "Cutover (c_log c') = cutoverRest H s l1"
  note d = startedAs_distinct [OF l1 assms(2)]
  have "distinct (map fst (Cutover (c_log c')))"
    unfolding rest cutoverRest_def by (rule distinct_filter_keys [OF d(1)])
  then show ?thesis using cutoverRest_recorded [OF d(1) d(2) rest] by blast
qed

text \<open>A signer that looks at one state after the other.\<close>

fun advances :: "hashes \<Rightarrow> ecdsa \<Rightarrow> (env \<times> pegState) list \<Rightarrow> cosigner \<Rightarrow> cosigner" where
  "advances H E [] c = c"
| "advances H E ((e, s) # looks) c = advances H E looks (snd (advanceCutover H E e s c))"

lemma advances_recorded:
  "distinct (map fst (Cutover (c_log c))) \<Longrightarrow> raw \<in> recordedOn (c_log c) chn \<Longrightarrow>
   raw \<in> recordedOn (c_log (advances H E looks c)) chn \<or> (\<exists>(e, s) \<in> set looks. \<not> uncleared (state_view H s chn) raw)"
proof (induction looks arbitrary: c)
  case (Cons look looks)
  obtain e s where l: "look = (e, s)" by (cases look)
  obtain r c' where a: "advanceCutover H E e s c = (r, c')" by (cases "advanceCutover H E e s c")
  have st: "distinct (map fst (Cutover (c_log c')))" "raw \<in> recordedOn (c_log c') chn \<or> \<not> uncleared (state_view H s chn) raw"
    using recorded_distinct_step [OF a Cons.prems(1)] Cons.prems(2) by blast+
  from st(2) show ?case
  proof
    assume "raw \<in> recordedOn (c_log c') chn"
    from Cons.IH [OF st(1) this] show ?thesis by (auto simp: l a)
  qed (simp add: l)
qed simp

lemma proven_nothing_recorded: "\<not> unproven l \<Longrightarrow> recordedOn l chn = {}"
  by (simp add: unproven_def recordedOn_def get_or_def)

lemma foldl_store_in: "distinct (map fst ts) \<Longrightarrow> (k, v) \<in> set ts \<Longrightarrow>
    lookup (foldl (\<lambda>m (k, v). store m k v) m ts) k = Some v"
proof (induction ts rule: rev_induct)
  case (snoc x ts)
  then show ?case by (cases x) (auto simp: image_iff)
qed simp

lemma tips_distinct: "tips H s = Inr ts \<Longrightarrow> distinct (map fst ts)"
  by (auto simp: tips_def chainDogecoin_def chainDogecoinVM_def split: sum.splits option.splits)

lemma cutoverRest_cleared:
  assumes "distinct (map fst (Cutover l))" "\<forall>chn. \<forall>raw \<in> recordedOn l chn. \<not> uncleared (state_view H s chn) raw"
  shows "cutoverRest H s l = []"
proof -
  have "get_or (cutoverLeft H s l) chn [] = []" for chn
    unfolding get_or_cutoverLeft [OF assms(1)] using assms(2) by (auto simp: filter_empty_conv recordedOn_def)
  then show ?thesis by (simp add: cutoverRest_def)
qed

section \<open>Samples\<close>

definition sampleSigner :: cosigner where
  "sampleSigner = \<lparr>c_bridge = sampleBridge, c_key = [3], c_log = createSigningLog\<lparr>History := []\<rparr>, c_path = ''log'', c_maxDaily = 0,
     c_maxRegistrations = 600, c_registered = [], c_registry = [], c_fenceFee = 0, c_mine = [], c_marker = NoFile\<rparr>"

definition sampleEnv :: env where
  "sampleEnv = \<lparr>e_now = 5000, e_writes = True, e_reads = True, e_watches = True, e_pause = NoFile, e_vm = sampleVm, e_doge = sampleDoge, e_import = None,
     e_listed = NoFile, e_approvals = None, e_address = (\<lambda>text. None)\<rparr>"

text \<open>The set holds one coin on Dogecoin; later the coin is spent, deep enough.\<close>

definition sampleHeld :: pegState where
  "sampleHeld = emptyState\<lparr>redeemFor := [(samplePeg, redeemScript sampleSigners)], dogeTxs := [sampleFunding],
     pegLine := newLineage sampleHashes [sampleFunding] samplePeg 6\<rparr>"

definition sampleSpent :: pegState where
  "sampleSpent = emptyState\<lparr>redeemFor := [(samplePeg, redeemScript sampleSigners)], dogeTxs := [sampleFunding, samplePayout],
     pegLine := newLineage sampleHashes [sampleFunding, samplePayout] samplePeg 6\<rparr>"

definition sampleCutting :: cosigner where
  "sampleCutting = snd (startCutover sampleHashes sampleECDSA sampleEnv sampleHeld sampleSigner)"

text \<open>The coin is spent by a payment that gives nothing back to the set.\<close>

definition sampleSwept :: chainTx where
  "sampleSwept = samplePayout\<lparr>t_tx := (t_tx samplePayout)\<lparr>TxOut := [NewTxOut 400000000 [0x51]]\<rparr>\<rparr>"

definition sampleEnded :: pegState where
  "sampleEnded = emptyState\<lparr>redeemFor := [(samplePeg, redeemScript sampleSigners)], dogeTxs := [sampleFunding, sampleSwept],
     pegLine := newLineage sampleHashes [sampleFunding, sampleSwept] samplePeg 6\<rparr>"

lemma sample_cutting:
  "fst (startCutover sampleHashes sampleECDSA sampleEnv sampleHeld sampleSigner) = Inr ()"
  "Cutover (c_log sampleCutting) = [(chainDogecoin, [OutPoint_String sampleCoin]), (chainDogecoinVM, [])]"
  "\<not> unproven (c_log (advances sampleHashes sampleECDSA [(sampleEnv, sampleHeld), (sampleEnv, sampleSpent)] sampleCutting))"
  "tips sampleHashes sampleSpent = Inr [(chainDogecoin, OutPoint_String sampleTip)]"
  "\<not> uncleared (state_view sampleHashes sampleSpent chainDogecoin) (OutPoint_String sampleCoin)"
  by code_simp+

section \<open>Properties\<close>

text \<open>C25: a cutover that starts records every coin of the set the two chains have seen and every input of a
  transaction the log names, except those already cleared, and keeps the coins recorded before.\<close>

theorem cutover_records_all:
  assumes "startCutover H E e s c = (Inr (), c')"
  shows "(\<forall>chn \<in> set cutoverChains. \<forall>op. setCoin H s chn op \<longrightarrow>
        cleared (state_view H s chn) op \<or> OutPoint_String op \<in> recordedOn (c_log c') chn)
     \<and> (\<forall>chn op. loggedAt H s (c_log c) chn op \<longrightarrow>
        cleared (state_view H s chn) op \<or> OutPoint_String op \<in> recordedOn (c_log c') chn)
     \<and> (\<forall>chn. recordedOn (c_log c) chn \<subseteq> recordedOn (c_log c') chn)"
proof -
  obtain coins where coins: "cutoverCoins H s (c_log c) = Inr coins" "c' = c\<lparr>c_log := beginCutover (e_now e) coins (c_log c)\<rparr>"
    using startCutover_Inr [OF assms] by metis
  have rec: "recordedOn (c_log c') chn = recordedOn (c_log c) chn \<union> set (get_or coins chn [])" if "chn \<in> set cutoverChains" for chn
    using beginCutover_recorded [OF that] by (simp add: recordedOn_def coins(2))
  have "recordedOn (c_log c) chn \<subseteq> recordedOn (c_log c') chn" for chn
    using rec by (cases "chn \<in> set cutoverChains") (auto simp: recordedOn_def coins(2) beginCutover_def cutoverChains_def)
  moreover have "cleared (state_view H s chn) op \<or> OutPoint_String op \<in> recordedOn (c_log c') chn"
    if "chn \<in> set cutoverChains" "setCoin H s chn op" for chn op
    using setCoin_history [OF that(2)] cutoverCoins_history [OF coins(1) that(1)] rec [OF that(1)] by auto
  moreover have "cleared (state_view H s chn) op \<or> OutPoint_String op \<in> recordedOn (c_log c') chn"
    if "loggedAt H s (c_log c) chn op" for chn op
    using cutoverCoins_logged [OF coins(1) that] rec by auto
  ultimately show ?thesis by blast
qed

theorem cutover_records_all_witness:
  "setCoin sampleHashes sampleHeld chainDogecoin sampleCoin \<and> OutPoint_String sampleCoin \<in> recordedOn (c_log sampleCutting) chainDogecoin"
proof -
  have st: "startCutover sampleHashes sampleECDSA sampleEnv sampleHeld sampleSigner = (Inr (), sampleCutting)"
    using sample_cutting(1) by (simp add: sampleCutting_def prod_eq_iff)
  have "setCoin sampleHashes sampleHeld chainDogecoin sampleCoin" unfolding setCoin_def by code_simp
  moreover have "\<not> cleared (state_view sampleHashes sampleHeld chainDogecoin) sampleCoin" "chainDogecoin \<in> set cutoverChains" by code_simp+
  ultimately show ?thesis using cutover_records_all [OF st] by blast
qed

text \<open>C24: however often a signer looks, its log counts as proven again only after every coin recorded was
  cleared in a state it looked at.\<close>

theorem cutover_ends_cleared:
  assumes "distinct (map fst (Cutover (c_log c)))" "raw \<in> recordedOn (c_log c) chn" "\<not> unproven (c_log (advances H E looks c))"
  shows "\<exists>(e, s) \<in> set looks. \<exists>op. parseOutPoint raw = Some op \<and> cleared (state_view H s chn) op"
proof -
  have "\<exists>(e, s) \<in> set looks. \<not> uncleared (state_view H s chn) raw"
    using advances_recorded [OF assms(1,2), of H E looks] proven_nothing_recorded [OF assms(3)] by simp
  then obtain e s where "(e, s) \<in> set looks" "\<not> uncleared (state_view H s chn) raw" by blast
  then show ?thesis by (intro bexI [of _ "(e, s)"]) (auto simp: uncleared_def split: option.splits)
qed

theorem cutover_ends_cleared_witness:
  "\<exists>s \<in> {sampleHeld, sampleSpent}. \<exists>op. parseOutPoint (OutPoint_String sampleCoin) = Some op \<and> cleared (state_view sampleHashes s chainDogecoin) op"
proof -
  have "distinct (map fst (Cutover (c_log sampleCutting)))" "OutPoint_String sampleCoin \<in> recordedOn (c_log sampleCutting) chainDogecoin"
    by (simp_all add: sample_cutting(2) recordedOn_def get_or_def chainDogecoin_def chainDogecoinVM_def)
  from cutover_ends_cleared [OF this sample_cutting(3)] show ?thesis by auto
qed

text \<open>C26: a signer in a cutover whose coins are all cleared leaves it the next time it looks, with the tips of
  the two lines as its anchors, and signs again.\<close>

theorem cutover_finishes:
  assumes "distinct (map fst (Cutover (c_log c)))" "Cutover (c_log c) \<noteq> []"
    "\<forall>chn. \<forall>raw \<in> recordedOn (c_log c) chn. \<not> uncleared (state_view H s chn) raw" "tips H s = Inr ts" "e_writes e"
  shows "\<exists>c'. cutoverGate H E e s c = (Inr (), c') \<and> \<not> unproven (c_log c') \<and> Actions (c_log c') = Actions (c_log c)
     \<and> (\<forall>(chn, tp) \<in> set ts. lookup (Anchors (c_log c')) chn = Some tp)"
proof -
  let ?l = "(c_log c)\<lparr>Cutover := [], History := historyFenced, Anchors := foldl (\<lambda>m (chn, tp). store m chn tp) (Anchors (c_log c)) ts\<rparr>"
  have "advanceCutover H E e s c = (Inr True, c\<lparr>c_log := ?l\<rparr>)"
    using assms(2,4,5) cutoverRest_cleared [OF assms(1,3)]
    by (simp add: advanceCutover_def effect_run Let_def setLog_def writeLog_def cutoverRest_def [symmetric])
  then have "cutoverGate H E e s c = (Inr (), c\<lparr>c_log := ?l\<rparr>)"
    by (simp add: cutoverGate_def effect_run unproven_def historyFenced_def)
  moreover have "\<forall>(chn, tp) \<in> set ts. lookup (Anchors ?l) chn = Some tp"
    using foldl_store_in [OF tips_distinct [OF assms(4)]] by auto
  moreover have "\<not> unproven ?l" by (simp add: unproven_def historyFenced_def)
  ultimately show ?thesis by (intro exI [of _ "c\<lparr>c_log := ?l\<rparr>"]) simp
qed

theorem cutover_finishes_witness:
  "\<exists>c'. cutoverGate sampleHashes sampleECDSA sampleEnv sampleSpent sampleCutting = (Inr (), c') \<and> \<not> unproven (c_log c')
     \<and> lookup (Anchors (c_log c')) chainDogecoin = Some (OutPoint_String sampleTip)"
proof -
  have "distinct (map fst (Cutover (c_log sampleCutting)))" "Cutover (c_log sampleCutting) \<noteq> []"
    by (simp_all add: sample_cutting(2) chainDogecoin_def chainDogecoinVM_def)
  moreover have "\<forall>chn. \<forall>raw \<in> recordedOn (c_log sampleCutting) chn. \<not> uncleared (state_view sampleHashes sampleSpent chn) raw"
    using sample_cutting(5) by (simp add: sample_cutting(2) recordedOn_def get_or_def)
  moreover have "e_writes sampleEnv" by (simp add: sampleEnv_def)
  ultimately show ?thesis using cutover_finishes [OF _ _ _ sample_cutting(4)] by fastforce
qed


end
