(* ===== verification/Fence.thy ===== *)
theory Fence
  imports Cutover
begin

text \<open>
  Fences, the rest of \<open>cmd/dogevm/cutover.go\<close>: what a fence spends and costs, the fee budget of a
  signer, and when it waits.
\<close>

section \<open>Fees of fences\<close>

definition coinValue :: "hashes \<Rightarrow> pegState \<Rightarrow> string \<Rightarrow> OutPoint \<Rightarrow> int option" where
  "coinValue H s chn op = (case lookup (v_funding (state_view H s chn)) (Hash op) of
     None \<Rightarrow> None
   | Some t \<Rightarrow> if unat (Index op) \<ge> length (TxOut (t_tx t)) then None
              else Some (Value (TxOut (t_tx t) ! unat (Index op))))"

definition fenceFeeOf :: "hashes \<Rightarrow> pegState \<Rightarrow> string \<Rightarrow> MsgTx \<Rightarrow> int" where
  "fenceFeeOf H s chn tx =
     (let vals = map (\<lambda>ti. coinValue H s chn (PreviousOutPoint ti)) (TxIn tx) in
      if None \<in> set vals then - 1 else sum_list (map the vals) - sum_list (map Value (TxOut tx)))"

definition varIntLen :: "nat \<Rightarrow> nat" where
  "varIntLen n = (if n < 0xfd then 1 else if n \<le> 0xffff then 3 else 5)"

definition pushLen :: "nat \<Rightarrow> nat" where
  "pushLen n = (if n < 76 then 1 else if n \<le> 0xff then 2 else 3)"

definition fenceInputSize :: "nat \<Rightarrow> bytes \<Rightarrow> nat" where
  "fenceInputSize required redeem =
     (let scr = 1 + required * (1 + 73) + pushLen (length redeem) + length redeem in 36 + varIntLen scr + scr + 4)"

definition fenceSize :: "bytes list \<Rightarrow> nat \<Rightarrow> nat" where
  "fenceSize redeems required =
     4 + varIntLen (length redeems) + 1 + 4 + sum_list (map (fenceInputSize required) redeems)
     + (8 + 1 + 23) + (8 + 1 + 2 + 4 + 36)"

definition fenceFee :: "string \<Rightarrow> int \<Rightarrow> int \<Rightarrow> int" where
  "fenceFee chn base sz =
     (if chn = chainDogecoinVM then max base (quot (sz * base + 249) 250)
      else base * max 1 (quot (sz + 9999) 10000))"

definition maxFenceInputs :: "string \<Rightarrow> nat" where
  "maxFenceInputs chn = (if chn = chainDogecoin then 100 else 400)"

definition maxFenceBytes :: nat where "maxFenceBytes = 90000"

definition fenceBase :: "bridge \<Rightarrow> string \<Rightarrow> int" where
  "fenceBase b chn = (if chn = chainDogecoin then dogeFee b else vmFee b)"

definition fenceRedeem :: "bridge \<Rightarrow> pegState \<Rightarrow> string \<Rightarrow> utxo \<Rightarrow> cerr + bytes" where
  "fenceRedeem b s chn u = (if chn = chainDogecoinVM then Inr (redeemScript (signers b))
     else case lookup (redeemFor s) (u_pkScript u) of None \<Rightarrow> Inl (Failed NoRedeem) | Some r \<Rightarrow> Inr r)"

definition fenceRedeems :: "bridge \<Rightarrow> pegState \<Rightarrow> string \<Rightarrow> utxo list \<Rightarrow> cerr + bytes list \<times> destination list" where
  "fenceRedeems b s chn inputs =
     bindr (collect (map (fenceRedeem b s chn) inputs)) (\<lambda>redeems.
     Inr (redeems, if chn = chainDogecoinVM then [] else List.map_filter (\<lambda>u. lookup (depositDest s) (u_pkScript u)) inputs))"

definition fenceSizeOf :: "bridge \<Rightarrow> pegState \<Rightarrow> string \<Rightarrow> utxo list \<Rightarrow> cerr + nat" where
  "fenceSizeOf b s chn inputs =
     bindr (fenceRedeems b s chn inputs) (\<lambda>(redeems, register). Inr (fenceSize redeems (Required (signers b))))"

function trimToSize :: "bridge \<Rightarrow> pegState \<Rightarrow> string \<Rightarrow> utxo list \<Rightarrow> cerr + utxo list" where
  "trimToSize b s chn inputs =
     (if length inputs \<le> 1 then Inr inputs
      else case fenceSizeOf b s chn inputs of
        Inl e \<Rightarrow> Inl e
      | Inr sz \<Rightarrow>
          if sz \<le> maxFenceBytes then Inr inputs
          else let n = length inputs * maxFenceBytes div sz in
            trimToSize b s chn (take (max 1 (min n (length inputs - 1))) inputs))"
  by pat_completeness auto
termination by (relation "measure (\<lambda>(b, s, chn, inputs). length inputs)") auto

declare trimToSize.simps [simp del]

section \<open>Fences\<close>

definition recordedSet :: "string list \<Rightarrow> OutPoint list" where
  "recordedSet coins = List.map_filter parseOutPoint coins"

definition spendsRecorded :: "utxo list \<Rightarrow> OutPoint list \<Rightarrow> bool" where
  "spendsRecorded inputs recorded = list_ex (\<lambda>u. u_outPoint u \<in> set recorded) inputs"

definition isFenceOf :: "chainTx \<Rightarrow> OutPoint list \<Rightarrow> bool" where
  "isFenceOf t recorded = (parseFence (t_tx t) \<noteq> None \<and> spendsAny (t_tx t) recorded)"

text \<open>The unconfirmed fence that pays most, and whether one is in a block short of depth.\<close>

definition fenceState :: "hashes \<Rightarrow> pegState \<Rightarrow> string \<Rightarrow> OutPoint list \<Rightarrow> chainTx option \<times> bool" where
  "fenceState H s chn recorded = foldl (\<lambda>(pending, shallow) t.
     if \<not> isFenceOf t recorded then (pending, shallow)
     else if t_confirmations t = 0 then
       (case pending of
          None \<Rightarrow> (Some t, shallow)
        | Some p \<Rightarrow> if fenceFeeOf H s chn (t_tx t) > fenceFeeOf H s chn (t_tx p) then (Some t, shallow) else (pending, shallow))
     else if t_confirmations t < v_depth (state_view H s chn) then (pending, True)
     else (pending, shallow)) (None, False) (v_txs (state_view H s chn))"

definition oldestFirst :: "utxo list \<Rightarrow> utxo list" where
  "oldestFirst coins = sort_key (\<lambda>u. (- u_confirmations u, Hash (u_outPoint u), unat (Index (u_outPoint u)))) coins"

definition fenceOrder :: "pegState \<Rightarrow> string \<Rightarrow> cerr + utxo list" where
  "fenceOrder s chn =
     (if chn \<noteq> chainDogecoin \<and> chn \<noteq> chainDogecoinVM then Inl NoSuchChain else
      let vm = (chn = chainDogecoinVM);
          pending = map snd (if vm then vmUnconfirmed s else unconfirmed s);
          free = (if vm then reserveUTXOs s else filter (\<lambda>u. u_confirmations u > 0) (lockedUTXOs s));
          anchor = (case if vm then reserveAnchor s else pegAnchor s of
             None \<Rightarrow> None
           | Some a \<Rightarrow> if containsOutPoint free (u_outPoint a) then Some a else None) in
      if list_ex (\<lambda>t. parseFence (t_tx t) = None) pending then Inl PegTxPending
      else Inr (case anchor of
        None \<Rightarrow> oldestFirst free
      | Some a \<Rightarrow> a # oldestFirst (filter (\<lambda>u. u_outPoint u \<noteq> u_outPoint a) free)))"

definition fenceInputs :: "pegState \<Rightarrow> string \<Rightarrow> OutPoint list \<Rightarrow> cerr + utxo list" where
  "fenceInputs s chn recorded =
     bindr (fenceOrder s chn) (\<lambda>inputs.
     let inputs = take (maxFenceInputs chn) inputs in
     if spendsRecorded inputs recorded then Inr inputs else Inl NoRecordedCoin)"

definition buildFence :: "hashes \<Rightarrow> bridge \<Rightarrow> string \<Rightarrow> utxo list \<Rightarrow> int \<Rightarrow> cerr + MsgTx" where
  "buildFence H b chn inputs fee =
     (if inputs = [] then Inl NothingToFence else
      let doge = (chn = chainDogecoin);
          tot = valueOf inputs;
          ins = map (\<lambda>u. (NewTxIn (u_outPoint u) [] [])\<lparr>Sequence := (if doge then MaxTxInSequenceNum - 2 else MaxTxInSequenceNum)\<rparr>) inputs in
      if tot - fee < pegDust then Inl FenceShort
      else case nullData (encodeFence (u_outPoint (hd inputs))) of
        None \<Rightarrow> Inl (Failed Panicked)
      | Some tag \<Rightarrow> Inr \<lparr>Version = (if doge then 1 else TxVersion), TxIn = ins,
          TxOut = [NewTxOut (tot - fee) (signers_pkScript H (signers b)), tag], LockTime = 0\<rparr>)"

text \<open>The fence a cutover calls for now: a replacement of a stuck one, or a new one.\<close>

definition nextFence :: "hashes \<Rightarrow> bridge \<Rightarrow> int \<Rightarrow> pegState \<Rightarrow> string \<Rightarrow> OutPoint list \<Rightarrow> cerr + MsgTx \<times> utxo list \<times> int" where
  "nextFence H b now s chn recorded = (case fenceState H s chn recorded of
     (Some pending, shallow) \<Rightarrow>
       if chn \<noteq> chainDogecoin then Inl FenceWaits
       else if fenceBumpAfter b \<le> 0 then Inl BumpsOff
       else if now - t_time pending < fenceBumpAfter b then Inl FenceWaits
       else bindr (collect (map (\<lambda>ti. case lookup (pendingCoins s) (PreviousOutPoint ti) of
              None \<Rightarrow> Inl FenceUnknownCoin | Some c \<Rightarrow> Inr c) (TxIn (t_tx pending)))) (\<lambda>inputs.
         bindr (fenceSizeOf b s chn inputs) (\<lambda>sz.
         let fee = fenceFeeOf H s chn (t_tx pending) + fenceFee chn (fenceBase b chn) (int sz) in
         bindr (buildFence H b chn inputs fee) (\<lambda>tx. Inr (tx, inputs, fee))))
   | (None, shallow) \<Rightarrow>
       if shallow then Inl FenceShallow
       else bindr (fenceInputs s chn recorded) (\<lambda>inputs.
         bindr (trimToSize b s chn inputs) (\<lambda>inputs.
         if \<not> spendsRecorded inputs recorded then Inl NoRecordedCoin
         else bindr (fenceSizeOf b s chn inputs) (\<lambda>sz.
         let fee = fenceFee chn (fenceBase b chn) (int sz) in
         bindr (buildFence H b chn inputs fee) (\<lambda>tx. Inr (tx, inputs, fee))))))"

definition checkFence :: "hashes \<Rightarrow> cosigner \<Rightarrow> int \<Rightarrow> pegState \<Rightarrow> string \<Rightarrow> cerr + MsgTx \<times> bytes list \<times> int" where
  "checkFence H c now s chn = (case lookup (Cutover (c_log c)) chn of
     None \<Rightarrow> Inl NotInCutover
   | Some coins \<Rightarrow>
       bindr (nextFence H (c_bridge c) now s chn (recordedSet coins)) (\<lambda>(want, inputs, fee).
       bindr (fenceRedeems (c_bridge c) s chn inputs) (\<lambda>(redeems, register). Inr (want, redeems, fee))))"

section \<open>Waiting for Dogecoin fences\<close>

definition setFence :: "chainView \<Rightarrow> chainTx \<Rightarrow> bool" where
  "setFence v t = (parseFence (t_tx t) \<noteq> None \<and>
     list_ex (\<lambda>ti. case lookup (v_funding v) (Hash (PreviousOutPoint ti)) of
        None \<Rightarrow> False
      | Some f \<Rightarrow> unat (Index (PreviousOutPoint ti)) < length (TxOut (t_tx f))
          \<and> isCoin v (TxOut (t_tx f) ! unat (Index (PreviousOutPoint ti)))) (TxIn (t_tx t)))"

definition unsettledDogeFence :: "hashes \<Rightarrow> pegState \<Rightarrow> chainTx option" where
  "unsettledDogeFence H s =
     (let v = state_view H s chainDogecoin in
      case List.find (\<lambda>t. t_confirmations t < v_depth v \<and> setFence v t) (v_txs v) of
        Some t \<Rightarrow> Some t
      | None \<Rightarrow> List.find (\<lambda>t. - t_confirmations t < v_depth v \<and> setFence v t) (v_conflicted v))"

definition surplusSpendWait :: "hashes \<Rightarrow> pegState \<Rightarrow> signingLog \<Rightarrow> cerr + unit" where
  "surplusSpendWait H s l =
     (if get_or (cutoverLeft H s l) chainDogecoin [] \<noteq> [] then Inl DogeCutoverLeft
      else guardr (unsettledDogeFence H s = None) DogeFenceUnsettled)"

section \<open>The lifetime budget\<close>

definition shareOf :: "signerSet \<Rightarrow> int" where
  "shareOf ss = max 1 (int (length (pubKeys ss)) - int (Required ss) + 1)"

definition feeRoom :: "bridge \<Rightarrow> audit \<Rightarrow> int \<Rightarrow> int \<Rightarrow> cerr + unit" where
  "feeRoom b a fee unseen = guardr ((fee + unseen) * shareOf (signers b) \<le> Surplus a + unseen) FeeOverShare"

definition firstBudget :: "pegState \<Rightarrow> int \<Rightarrow> signingLog \<Rightarrow> signingLog" where
  "firstBudget s share l =
     (let dp = rootDepth (pegLine s);
          surplus = foldl (\<lambda>n u. if u_confirmations u > 0 \<and> u_confirmations u < dp then n - u_value u else n)
             (Surplus (audit_of s)) (contributions s) in
      l\<lparr>FenceBudget := quot (max surplus 0) share,
        FenceCapital := FenceCapital l @ map (OutPoint_String \<circ> u_outPoint)
          (filter (\<lambda>u. u_confirmations u \<ge> dp) (contributions s))\<rparr>)"

definition addContribution :: "int \<Rightarrow> int \<Rightarrow> utxo \<Rightarrow> signingLog \<Rightarrow> signingLog" where
  "addContribution dp share u l =
     (if OutPoint_String (u_outPoint u) \<in> set (FenceCapital l) \<or> u_confirmations u < dp then l
      else l\<lparr>FenceBudget := FenceBudget l + quot (u_value u) share,
             FenceCapital := FenceCapital l @ [OutPoint_String (u_outPoint u)]\<rparr>)"

text \<open>The new log, and whether it changed.\<close>

definition addFenceCapital :: "pegState \<Rightarrow> int \<Rightarrow> signingLog \<Rightarrow> signingLog \<times> bool" where
  "addFenceCapital s share l =
     (let first = (FenceBudget l = 0 \<and> FenceCapital l = []);
          l1 = (if first then firstBudget s share l else l);
          l2 = foldl (\<lambda>l u. addContribution (rootDepth (pegLine s)) share u l) l1 (contributions s) in
      (l2, first \<or> length (FenceCapital l2) \<noteq> length (FenceCapital l1)))"

definition isSurplusKey :: "string \<Rightarrow> bool" where
  "isSurplusKey k = (take (length (actionFence @ '':'')) k = actionFence @ '':'' \<or> take (length (actionCancel @ '':'')) k = actionCancel @ '':'')"

definition fenceFees :: "signingLog \<Rightarrow> string \<Rightarrow> int \<Rightarrow> int" where
  "fenceFees l key fee = (case foldl (\<lambda>(tot, seen) (k, a).
       if \<not> isSurplusKey k then (tot, seen)
       else if k = key then (tot + max (worstFee (Txs a)) fee, True)
       else (tot + worstFee (Txs a), seen)) (0, False) (Actions l) of
     (tot, seen) \<Rightarrow> if seen then tot else tot + fee)"

definition cutoverBudgetRoom :: "env \<Rightarrow> pegState \<Rightarrow> string \<Rightarrow> int \<Rightarrow> unit signer" where
  "cutoverBudgetRoom e s key fee =
     bindm (readm id) (\<lambda>c.
     if CutoverEpoch (c_log c) = 0 then retm () else
     let share = shareOf (signers (c_bridge c)); (l, changed) = addFenceCapital s share (c_log c) in
     bindm (setLog (\<lambda>_. l)) (\<lambda>_.
     bindm (if changed then writeLog e else retm ()) (\<lambda>_.
     guardm (fenceFees l key fee \<le> FenceBudget l) OverFenceBudget)))"


section \<open>Trimming\<close>

lemma trimToSize_prefix: "trimToSize b s chn inputs = Inr kept \<Longrightarrow> \<exists>n. kept = take n inputs \<and> (inputs \<noteq> [] \<longrightarrow> 0 < n)"
proof (induction b s chn inputs arbitrary: kept rule: trimToSize.induct)
  case (1 b s chn inputs)
  show ?case
  proof (cases "length inputs \<le> 1")
    case True
    with 1(2) have "kept = take (length inputs) inputs" by (simp add: trimToSize.simps)
    then show ?thesis by (intro exI [of _ "length inputs"]) simp
  next
    case False
    with 1(2) obtain sz where sz: "fenceSizeOf b s chn inputs = Inr sz" by (auto simp: trimToSize.simps [of b s chn inputs] split: sum.splits)
    show ?thesis
    proof (cases "sz \<le> maxFenceBytes")
      case True
      with False sz 1(2) have "kept = take (length inputs) inputs" by (simp add: trimToSize.simps [of b s chn inputs])
      then show ?thesis using False by (intro exI [of _ "length inputs"]) simp
    next
      case big: False
      let ?n = "max 1 (min (length inputs * maxFenceBytes div sz) (length inputs - 1))"
      have "trimToSize b s chn (take ?n inputs) = Inr kept"
        using 1(2) False sz big by (simp add: trimToSize.simps [of b s chn inputs] Let_def)
      from 1(1) [OF False sz big refl this] obtain m where "kept = take m (take ?n inputs)" "take ?n inputs \<noteq> [] \<longrightarrow> 0 < m" by blast
      then show ?thesis by (intro exI [of _ "min m ?n"]) (auto simp: min_def)
    qed
  qed
qed

lemma trimToSize_fits: "trimToSize b s chn inputs = Inr kept \<Longrightarrow> length kept \<le> 1 \<or> (\<exists>sz. fenceSizeOf b s chn kept = Inr sz \<and> sz \<le> maxFenceBytes)"
proof (induction b s chn inputs arbitrary: kept rule: trimToSize.induct)
  case (1 b s chn inputs)
  show ?case
  proof (cases "length inputs \<le> 1")
    case True
    with 1(2) show ?thesis by (simp add: trimToSize.simps)
  next
    case False
    with 1(2) obtain sz where sz: "fenceSizeOf b s chn inputs = Inr sz" by (auto simp: trimToSize.simps [of b s chn inputs] split: sum.splits)
    show ?thesis
    proof (cases "sz \<le> maxFenceBytes")
      case True
      with False sz 1(2) show ?thesis by (simp add: trimToSize.simps [of b s chn inputs])
    next
      case big: False
      with 1(2) False sz have "trimToSize b s chn (take (max 1 (min (length inputs * maxFenceBytes div sz) (length inputs - 1))) inputs) = Inr kept"
        by (simp add: trimToSize.simps [of b s chn inputs] Let_def)
      from 1(1) [OF False sz big refl this] show ?thesis .
    qed
  qed
qed

section \<open>The size of a signed fence\<close>

lemma length_pushBytes: "length data \<le> 65535 \<Longrightarrow> length (pushBytes data) \<le> pushLen (length data) + length data"
  by (auto simp: pushBytes_def pushLen_def Let_def)

lemma length_pushes: "list_all (\<lambda>d. length d \<le> 73) ds \<Longrightarrow> length (concat (map pushBytes ds)) \<le> length ds * 74"
proof (induction ds)
  case (Cons d ds)
  then show ?case using length_pushBytes [of d] by (simp add: pushLen_def)
qed simp

lemma built_length:
  assumes "Script_of (foldl (\<lambda>b d. AddData d b) (AddOp OP_0 NewScriptBuilder) (ds @ [redeem])) = Inr sc"
    "list_all (\<lambda>d. length d \<le> 73) ds"
  shows "length sc \<le> 1 + length ds * (1 + 73) + pushLen (length redeem) + length redeem"
proof -
  have "err (foldl (\<lambda>b d. AddData d b) (AddOp OP_0 NewScriptBuilder) (ds @ [redeem])) = None"
    "script (foldl (\<lambda>b d. AddData d b) (AddOp OP_0 NewScriptBuilder) (ds @ [redeem])) = sc"
    using assms(1) by (simp_all only: Script_of_def split: option.split_asm) simp_all
  with AddData_foldl_ok [of "AddOp OP_0 NewScriptBuilder" "ds @ [redeem]"]
  have sc: "sc = OP_0 # concat (map pushBytes ds) @ pushBytes redeem" "length redeem \<le> MaxScriptElementSize"
    by (auto simp: AddOp_def NewScriptBuilder_def MaxScriptSize_def simp del: foldl_append)
  have "length (pushBytes redeem) \<le> pushLen (length redeem) + length redeem"
    by (rule length_pushBytes) (use sc(2) in \<open>simp add: MaxScriptElementSize_def\<close>)
  then show ?thesis using length_pushes [OF assms(2)] by (simp add: sc(1))
qed

lemma varInt_mono: "n \<le> m \<Longrightarrow> m \<le> 0xffffffff \<Longrightarrow> VarIntSerializeSize n \<le> varIntLen m"
  by (simp add: VarIntSerializeSize_def varIntLen_def)

lemma varInt_eq: "n \<le> 0xffffffff \<Longrightarrow> VarIntSerializeSize n = varIntLen n"
  by (simp add: VarIntSerializeSize_def varIntLen_def)

lemma input_size:
  assumes "length (SignatureScript ti) \<le> 1 + required * (1 + 73) + pushLen (length redeem) + length redeem"
    "1 + required * (1 + 73) + pushLen (length redeem) + length redeem \<le> 0xffffffff"
  shows "TxIn_SerializeSize ti \<le> fenceInputSize required redeem"
  using assms(1) varInt_mono [OF assms] by (simp add: TxIn_SerializeSize_def fenceInputSize_def Let_def)

lemma sum_list_le_nth: "length xs = length ys \<Longrightarrow> (\<And>i. i < length xs \<Longrightarrow> f (xs ! i) \<le> g (ys ! i)) \<Longrightarrow>
    sum_list (map f xs) \<le> (sum_list (map g ys) :: nat)"
proof (induction xs ys rule: list_induct2)
  case (Cons x xs y ys)
  from Cons.prems [of 0] Cons.IH Cons.prems [of "Suc i" for i] show ?case by (simp add: add_mono)
qed simp

text \<open>What a fence is made of.\<close>

lemma buildFence_Inr:
  assumes "buildFence H b chn inputs fee = Inr tx"
  obtains tag where "inputs \<noteq> []" "pegDust \<le> valueOf inputs - fee" "nullData (encodeFence (u_outPoint (hd inputs))) = Some tag"
    "TxOut tx = [NewTxOut (valueOf inputs - fee) (signers_pkScript H (signers b)), tag]"
    "map PreviousOutPoint (TxIn tx) = map u_outPoint inputs" "\<forall>ti \<in> set (TxIn tx). SignatureScript ti = [] \<and> Witness ti = []" "LockTime tx = 0"
  using assms by (auto simp: buildFence_def Let_def NewTxIn_def comp_def split: if_split_asm option.splits)

lemma tag_size: "wf_OutPoint op \<Longrightarrow> nullData (encodeFence op) = Some tag \<Longrightarrow> TxOut_SerializeSize tag = 8 + 1 + 2 + 4 + 36"
  by (auto simp: encodeFence_def nullData_ok length_outpoint_tag tagFence_def MaxDataCarrierSize_def TxOut_SerializeSize_def
      pushBytes_def VarIntSerializeSize_def)

lemma length_hash160Of [simp]: "length (hash160Of H r) = 20"
  by (auto simp: hash160Of_def min_def)

lemma set_size: "TxOut_SerializeSize (NewTxOut v (signers_pkScript H s)) = 8 + 1 + 23"
  by (simp add: TxOut_SerializeSize_def NewTxOut_def signers_pkScript_eq VarIntSerializeSize_def)

lemma baseSize_sum: "baseSize tx = 8 + VarIntSerializeSize (length (TxIn tx)) + VarIntSerializeSize (length (TxOut tx))
    + sum_list (map TxIn_SerializeSize (TxIn tx)) + sum_list (map TxOut_SerializeSize (TxOut tx))"
  by (simp add: baseSize_def foldl_add)


lemma unsignedTx_sizes:
  assumes "unsignedTx tx' = unsignedTx tx"
  shows "TxOut tx' = TxOut tx" "length (TxIn tx') = length (TxIn tx)"
  using arg_cong [OF assms, of TxOut] arg_cong [OF assms, of "\<lambda>tx. length (TxIn tx)"] by (simp_all add: unsignedTx_def)

lemma assemble_witness:
  "assemble ss tx redeems sigs = Inr tx' \<Longrightarrow> \<forall>ti \<in> set (TxIn tx). Witness ti = [] \<Longrightarrow> \<not> HasWitness tx'"
  by (auto simp: assemble_def Let_def HasWitness_def list_ex_iff split: if_split_asm sum.splits dest!: set_zip_leftD)

lemma assembled_inputs:
  assumes "assemble ss tx redeems sigs = Inr tx'"
    "\<forall>k sg. lookup sigs k = Some sg \<longrightarrow> length sg = length (TxIn tx) \<and> list_all (\<lambda>d. length d \<le> 73) sg"
    "Required ss \<le> 20" "\<forall>r \<in> set redeems. length r \<le> MaxScriptElementSize"
  shows "sum_list (map TxIn_SerializeSize (TxIn tx')) \<le> sum_list (map (fenceInputSize (Required ss)) redeems)"
proof (rule sum_list_le_nth)
  let ?ks = "take (Required ss) (filter (has_key sigs) [0..<length (pubKeys ss)])"
  note a = assemble_Inr [OF assms(1)]
  show l: "length (TxIn tx') = length redeems" using unsignedTx_sizes(2) [OF a(3)] a(2) by simp
  fix i assume "i < length (TxIn tx')"
  with l a(2) have i: "i < length (TxIn tx)" "i < length redeems" by simp_all
  let ?ds = "map (\<lambda>k. get_or sigs k [] ! i) ?ks"
  have "list_all (\<lambda>d. length d \<le> 73) ?ds"
  proof (unfold list_all_iff, intro ballI)
    fix d assume "d \<in> set ?ds"
    then obtain k where k: "k \<in> set ?ks" "d = get_or sigs k [] ! i" by auto
    then have "has_key sigs k" using set_take_subset [of "Required ss"] by fastforce
    then obtain sg where "lookup sigs k = Some sg" by (auto simp: has_key_def)
    with assms(2) i(1) k(2) show "length d \<le> 73" by (auto simp: get_or_def list_all_length)
  qed
  moreover have "Script_of (foldl (\<lambda>b d. AddData d b) (AddOp OP_0 NewScriptBuilder) (?ds @ [redeems ! i])) = Inr (SignatureScript (TxIn tx' ! i))"
    using a(4) i(1) by blast
  ultimately have "length (SignatureScript (TxIn tx' ! i)) \<le> 1 + Required ss * (1 + 73) + pushLen (length (redeems ! i)) + length (redeems ! i)"
    using built_length a(1) by fastforce
  then show "TxIn_SerializeSize (TxIn tx' ! i) \<le> fenceInputSize (Required ss) (redeems ! i)"
    by (rule input_size) (use assms(3,4) i(2) in \<open>auto simp: pushLen_def MaxScriptElementSize_def dest!: nth_mem [of i redeems]\<close>)
qed

section \<open>The fees a signer has promised from the surplus\<close>

definition spentSurplus :: "signingLog \<Rightarrow> int" where
  "spentSurplus l = sum_list (map (\<lambda>(k, a). if isSurplusKey k then worstFee (Txs a) else 0) (Actions l))"

lemma worstFee_snoc: "worstFee (txs @ [t]) = max (worstFee txs) (Fee t)"
  by (simp add: worstFee_def)

lemma fenceFees_foldl:
  "foldl (\<lambda>(tot, seen) (k, a). if \<not> isSurplusKey k then (tot, seen)
       else if k = key then (tot + max (worstFee (Txs a)) fee, True) else (tot + worstFee (Txs a), seen)) (n, b) acts
   = (n + sum_list (map (\<lambda>(k, a). if isSurplusKey k then (if k = key then max (worstFee (Txs a)) fee else worstFee (Txs a)) else 0) acts),
      b \<or> (isSurplusKey key \<and> key \<in> fst ` set acts))"
  by (induction acts arbitrary: n b) auto

lemma store_surplus:
  assumes "distinct (map fst acts)" "isSurplusKey key" "0 \<le> fee"
    "worstFee (Txs a') = max (worstFee (Txs (get_or acts key a0))) fee" "Txs a0 = []"
  shows "sum_list (map (\<lambda>(k, a). if isSurplusKey k then worstFee (Txs a) else 0) (store acts key a'))
    = sum_list (map (\<lambda>(k, a). if isSurplusKey k then (if k = key then max (worstFee (Txs a)) fee else worstFee (Txs a)) else 0) acts)
      + (if key \<in> fst ` set acts then 0 else fee)"
  using assms
proof (induction acts)
  case Nil
  then show ?case by (simp add: store_def get_or_def worstFee_def)
next
  case (Cons ka acts)
  obtain k a where ka: "ka = (k, a)" by (cases ka)
  show ?case
  proof (cases "k = key")
    case True
    have other: "\<forall>x \<in> set acts. fst x \<noteq> key" using Cons.prems(1) True by (auto simp: ka)
    have "sum_list (map (\<lambda>(k, a). if isSurplusKey k then worstFee (Txs a) else 0) acts)
      = sum_list (map (\<lambda>(k, a). if isSurplusKey k then (if k = key then max (worstFee (Txs a)) fee else worstFee (Txs a)) else 0) acts)"
      using other by (intro arg_cong [where f = sum_list] map_cong) auto
    then show ?thesis using True Cons.prems(2,4) by (simp add: ka store_def get_or_def)
  next
    case False
    then have "get_or (ka # acts) key a0 = get_or acts key a0" by (simp add: ka get_or_def)
    with Cons False show ?thesis by (simp add: ka store_def)
  qed
qed

lemma spentSurplus_record:
  assumes "distinct (map fst (Actions l))" "isSurplusKey key" "0 \<le> fee"
  shows "spentSurplus (log_record H now key chn tx v fee l) = fenceFees l key fee"
proof -
  let ?a0 = "\<lparr>LValue = v, First = now, Txs = []\<rparr>"
  let ?entry = "\<lparr>Txid = Hash_String (TxHash H tx), Signed = [], Inputs = inputTexts tx, Chain = chn, Fee = (if fee > 0 then fee else 0)\<rparr>"
  let ?a' = "(get_or (Actions l) key ?a0)\<lparr>Txs := Txs (get_or (Actions l) key ?a0) @ [?entry]\<rparr>"
  have "Actions (log_record H now key chn tx v fee l) = store (Actions l) key ?a'"
    by (simp add: log_record_def Let_def)
  moreover have "worstFee (Txs ?a') = max (worstFee (Txs (get_or (Actions l) key ?a0))) fee"
    using assms(3) worstFee_nonneg by (simp add: worstFee_snoc)
  ultimately show ?thesis
    using store_surplus [OF assms, of ?a' ?a0] assms(2)
    by (simp add: spentSurplus_def fenceFees_def fenceFees_foldl)
qed


lemma cutoverBudgetRoom_Inr:
  assumes "cutoverBudgetRoom e s key fee c = (Inr (), c')" "CutoverEpoch (c_log c) \<noteq> 0"
  shows "c' = c\<lparr>c_log := fst (addFenceCapital s (shareOf (signers (c_bridge c))) (c_log c))\<rparr>"
    "fenceFees (c_log c') key fee \<le> FenceBudget (c_log c')"
  using assms by (auto simp: cutoverBudgetRoom_def setLog_def writeLog_def Let_def case_prod_beta split: if_split_asm)

lemma addFenceCapital_keeps:
  "Actions (fst (addFenceCapital s share l)) = Actions l" "CutoverEpoch (fst (addFenceCapital s share l)) = CutoverEpoch l"
proof -
  have "Actions (foldl (\<lambda>l u. addContribution dp share u l) l us) = Actions l
      \<and> CutoverEpoch (foldl (\<lambda>l u. addContribution dp share u l) l us) = CutoverEpoch l" for dp us l
    by (induction us arbitrary: l) (simp_all add: addContribution_def)
  then show "Actions (fst (addFenceCapital s share l)) = Actions l" "CutoverEpoch (fst (addFenceCapital s share l)) = CutoverEpoch l"
    by (simp_all add: addFenceCapital_def Let_def firstBudget_def)
qed

lemma addContribution_counted:
  "\<forall>u \<in> set us. u_confirmations u \<ge> dp \<longrightarrow> OutPoint_String (u_outPoint u) \<in> set (FenceCapital l) \<Longrightarrow>
   foldl (\<lambda>l u. addContribution dp share u l) l us = l"
  by (induction us) (auto simp: addContribution_def not_less)

lemma addContribution_all:
  "\<forall>u \<in> set us. u_confirmations u \<ge> dp \<longrightarrow> OutPoint_String (u_outPoint u) \<in> set (FenceCapital (foldl (\<lambda>l u. addContribution dp share u l) l us))"
  "set (FenceCapital l) \<subseteq> set (FenceCapital (foldl (\<lambda>l u. addContribution dp share u l) l us))"
proof (induction us arbitrary: l)
  case (Cons u us)
  { case 1 show ?case using Cons.IH [of "addContribution dp share u l"] by (auto simp: addContribution_def split: if_splits) }
  { case 2 show ?case using Cons.IH(2) [of "addContribution dp share u l"] by (auto simp: addContribution_def split: if_splits) }
qed simp_all

lemma addContribution_first:
  "foldl (\<lambda>l u. addContribution (rootDepth (pegLine s)) share u l) (firstBudget s share l) (contributions s) = firstBudget s share l"
  by (rule addContribution_counted) (auto simp: firstBudget_def Let_def)

section \<open>Quorums\<close>

text \<open>The arithmetic of quorums: with \<open>f\<close> signers of \<open>n\<close> dishonest, a transaction that needs \<open>t\<close>
  signatures has at least \<open>t - f\<close> honest ones.\<close>

lemma quorum_share:
  fixes n t f :: nat
  assumes "f < t" "t \<le> n"
  shows "n - f \<le> (t - f) * (n - t + 1)"
proof -
  obtain a where a: "t = f + Suc a" using less_imp_Suc_add [OF assms(1)] by auto
  obtain d where d: "n = t + d" using le_Suc_ex [OF assms(2)] by auto
  have "Suc a + d \<le> Suc a * (d + 1)" by (simp add: algebra_simps)
  with a d show ?thesis by simp
qed

lemma sum_list_le_const: "\<forall>x \<in> set xs. f x \<le> (c :: int) \<Longrightarrow> sum_list (map f xs) \<le> int (length xs) * c"
  by (induction xs) (auto simp: algebra_simps)

lemma filter_charge:
  "\<forall>l \<in> set logs. P l \<longrightarrow> (fee :: int) \<le> g l \<Longrightarrow> \<forall>l \<in> set logs. 0 \<le> g l \<Longrightarrow>
   int (length (filter P logs)) * fee \<le> sum_list (map g logs)"
proof (induction logs)
  case (Cons l logs)
  then have "0 \<le> g l" "P l \<Longrightarrow> fee \<le> g l" by auto
  with Cons show ?case by (cases "P l") (auto simp: algebra_simps)
qed simp

definition chargedIn :: "signingLog \<Rightarrow> string \<Rightarrow> int" where
  "chargedIn l k = (case lookup (Actions l) k of None \<Rightarrow> 0 | Some a \<Rightarrow> worstFee (Txs a))"

lemma chargedIn_nonneg: "0 \<le> chargedIn l k"
  by (simp add: chargedIn_def worstFee_nonneg split: option.split)

lemma charged_sum:
  assumes "distinct (map fst acts)" "distinct ks" "\<forall>k \<in> set ks. isSurplusKey k"
  shows "sum_list (map (\<lambda>k. case lookup acts k of None \<Rightarrow> 0 | Some a \<Rightarrow> worstFee (Txs a)) ks)
    \<le> sum_list (map (\<lambda>(k, a). if isSurplusKey k then worstFee (Txs a) else 0) acts)"
  using assms(1)
proof (induction acts)
  case Nil
  have "sum_list (map (\<lambda>k. 0 :: int) ks) = 0" by (induction ks) simp_all
  then show ?case by simp
next
  case (Cons ka acts)
  obtain k a where ka: "ka = (k, a)" by (cases ka)
  let ?g = "\<lambda>k. case lookup acts k of None \<Rightarrow> 0 | Some a \<Rightarrow> worstFee (Txs a)"
  have none: "lookup acts k = None" using Cons.prems by (auto simp: ka intro: lookup_notin)
  have "sum_list (map (\<lambda>k'. case lookup (ka # acts) k' of None \<Rightarrow> 0 | Some a \<Rightarrow> worstFee (Txs a)) ks)
      = sum_list (map ?g ks) + (if k \<in> set ks then worstFee (Txs a) else 0)"
    using assms(2)
  proof (induction ks)
    case (Cons k' ks)
    then show ?case using none by (auto simp: ka lookup_def)
  qed simp
  also have "\<dots> \<le> sum_list (map ?g ks) + (if isSurplusKey k then worstFee (Txs a) else 0)"
    using assms(3) worstFee_nonneg by simp
  finally show ?case using Cons by (simp add: ka)
qed

lemma charged_spent: "distinct (map fst (Actions l)) \<Longrightarrow> distinct ks \<Longrightarrow> \<forall>k \<in> set ks. isSurplusKey k \<Longrightarrow>
    sum_list (map (chargedIn l) ks) \<le> spentSurplus l"
  using charged_sum [of "Actions l" ks] by (simp add: chargedIn_def [abs_def] spentSurplus_def)

lemma sum_list_swap: "sum_list (map (\<lambda>x. sum_list (map (g x) ys)) xs) = sum_list (map (\<lambda>y. sum_list (map (\<lambda>x. g x y) xs)) ys)"
  for g :: "'a \<Rightarrow> 'b \<Rightarrow> int"
  by (induction xs) (simp_all add: sum_list_addf)


section \<open>What the next fence spends\<close>

lemma parseFence_build:
  assumes "buildFence H b chn inputs fee = Inr tx" "wf_OutPoint (u_outPoint (hd inputs))"
  shows "parseFence tx = Some (u_outPoint (hd inputs))"
proof -
  obtain tag where t: "nullData (encodeFence (u_outPoint (hd inputs))) = Some tag"
    "TxOut tx = [NewTxOut (valueOf inputs - fee) (signers_pkScript H (signers b)), tag]"
    using buildFence_Inr [OF assms(1)] by metis
  have "opReturnData tx = Some (take 4 (encodeFence (u_outPoint (hd inputs))), drop 4 (encodeFence (u_outPoint (hd inputs))))"
    using t assms(2) by (intro opReturnData_last [where outs = "[NewTxOut (valueOf inputs - fee) (signers_pkScript H (signers b))]" and nd = tag])
      (simp_all add: encodeFence_def length_outpoint_tag MaxDataCarrierSize_def NewTxOut_def class_peg)
  then show ?thesis unfolding parseFence_def by (intro parseOutPointTag_encode) (simp_all add: encodeFence_def assms(2))
qed

lemma set_oldestFirst [simp]: "set (oldestFirst coins) = set coins"
  by (simp add: oldestFirst_def)

lemma fenceOrder_own:
  "fenceOrder s chn = Inr coins \<Longrightarrow> u \<in> set coins \<Longrightarrow>
   \<exists>v \<in> set (reserveUTXOs s @ lockedUTXOs s). u_outPoint v = u_outPoint u"
  by (auto simp: fenceOrder_def Let_def containsOutPoint_def list_ex_iff split: if_split_asm option.splits)

lemma fenceInputs_own:
  "fenceInputs s chn recorded = Inr inputs \<Longrightarrow> u \<in> set inputs \<Longrightarrow>
   \<exists>v \<in> set (reserveUTXOs s @ lockedUTXOs s). u_outPoint v = u_outPoint u"
  by (auto simp: fenceInputs_def bindr_Inr_iff Let_def dest!: in_set_takeD fenceOrder_own split: if_split_asm)

lemma fenceState_foldl:
  fixes step :: "chainTx option \<times> bool \<Rightarrow> chainTx \<Rightarrow> chainTx option \<times> bool"
  assumes "\<And>p sh t. (case fst (step (p, sh) t) of None \<Rightarrow> True | Some q \<Rightarrow> p = Some q \<or> (q = t \<and> ok t))"
  shows "fst (foldl step (p, sh) ts) = Some q \<Longrightarrow> p = Some q \<or> (q \<in> set ts \<and> ok q)"
proof (induction ts arbitrary: p sh)
  case (Cons t ts)
  obtain p' sh' where st: "step (p, sh) t = (p', sh')" by (cases "step (p, sh) t")
  with Cons.IH [of p' sh'] Cons.prems assms [of p t sh] show ?case by (auto split: option.splits)
qed simp

lemma fenceState_pending:
  assumes "fenceState H s chn recorded = (Some p, shallow)"
  shows "p \<in> set (v_txs (state_view H s chn))" "isFenceOf p recorded" "t_confirmations p = 0"
proof -
  have "None = Some p \<or> (p \<in> set (v_txs (state_view H s chn)) \<and> isFenceOf p recorded \<and> t_confirmations p = 0)"
    using arg_cong [OF assms, where f = fst] unfolding fenceState_def fst_conv
    by (intro fenceState_foldl [where ok = "\<lambda>t. isFenceOf t recorded \<and> t_confirmations t = 0"]) (auto split: option.splits)
  then show "p \<in> set (v_txs (state_view H s chn))" "isFenceOf p recorded" "t_confirmations p = 0" by simp_all
qed

text \<open>A coin the state knows as the signers' own.\<close>

definition ownCoin :: "pegState \<Rightarrow> OutPoint \<Rightarrow> bool" where
  "ownCoin s op \<longleftrightarrow> op \<in> u_outPoint ` set (reserveUTXOs s @ lockedUTXOs s) \<or> has_key (pendingCoins s) op"

lemma collect_pending:
  assumes "collect (map (\<lambda>ti. case lookup m (PreviousOutPoint ti) of None \<Rightarrow> Inl e | Some c \<Rightarrow> Inr c) ins) = Inr inputs"
  shows "map (\<lambda>ti. lookup m (PreviousOutPoint ti)) ins = map Some inputs"
  using assms unfolding collect_Inr
proof (induction ins arbitrary: inputs)
  case (Cons ti ins)
  then show ?case by (cases inputs) (auto split: option.splits)
qed simp

lemma nextFence_new:
  assumes "nextFence H b now s chn recorded = Inr (tx, inputs, fee)" "fst (fenceState H s chn recorded) = None"
  shows "\<exists>all. fenceInputs s chn recorded = Inr all \<and> trimToSize b s chn all = Inr inputs" "spendsRecorded inputs recorded"
    "buildFence H b chn inputs fee = Inr tx" "\<exists>sz. fenceSizeOf b s chn inputs = Inr sz \<and> fee = fenceFee chn (fenceBase b chn) (int sz)"
  using assms by (auto simp: nextFence_def bindr_Inr_iff Let_def split: prod.splits if_split_asm)

lemma nextFence_bump:
  assumes "nextFence H b now s chn recorded = Inr (tx, inputs, fee)" "fenceState H s chn recorded = (Some p, sh)"
  shows "chn = chainDogecoin" "map (\<lambda>ti. lookup (pendingCoins s) (PreviousOutPoint ti)) (TxIn (t_tx p)) = map Some inputs"
    "buildFence H b chn inputs fee = Inr tx" "fenceBumpAfter b \<le> now - t_time p"
    "\<exists>sz. fenceSizeOf b s chn inputs = Inr sz \<and> fee = fenceFeeOf H s chn (t_tx p) + fenceFee chn (fenceBase b chn) (int sz)"
  using assms by (auto simp: nextFence_def bindr_Inr_iff Let_def collect_pending split: if_split_asm)

lemma nextFence_built: "nextFence H b now s chn recorded = Inr (tx, inputs, fee) \<Longrightarrow> buildFence H b chn inputs fee = Inr tx"
  using nextFence_new(3) nextFence_bump(3) by (cases "fenceState H s chn recorded"; cases "fst (fenceState H s chn recorded)") fastforce+


text \<open>A coin that an unconfirmed transaction of the signers spends is filed under its own outpoint.\<close>

definition pendingOK :: "pegState \<Rightarrow> bool" where
  "pendingOK s \<longleftrightarrow> (\<forall>op c. lookup (pendingCoins s) op = Some c \<longrightarrow> u_outPoint c = op)"

lemma pendingOK_cong: "pendingCoins s = pendingCoins s' \<Longrightarrow> pendingOK s = pendingOK s'"
  by (simp add: pendingOK_def)

lemma confirmedCoin_keyed:
  "lookup (foldl (\<lambda>m (op, out, t). store m op \<lparr>u_outPoint = op, u_value = Value out, u_pkScript = PkScript out, u_confirmations = t_confirmations t\<rparr>) m xs) op = Some c
   \<Longrightarrow> \<forall>op c. lookup m op = Some c \<longrightarrow> u_outPoint c = op \<Longrightarrow> u_outPoint c = op"
proof (induction xs arbitrary: m)
  case (Cons x xs)
  obtain op' out t where x: "x = (op', out, t)" by (cases x)
  let ?m = "store m op' \<lparr>u_outPoint = op', u_value = Value out, u_pkScript = PkScript out, u_confirmations = t_confirmations t\<rparr>"
  have "\<forall>op c. lookup ?m op = Some c \<longrightarrow> u_outPoint c = op" using Cons.prems(2) by auto
  note keyed = this
  show ?case by (rule Cons.IH [of ?m, OF _ keyed]) (use Cons.prems(1) in \<open>simp add: x\<close>)
qed (auto simp only: foldl.simps)

lemma addPending_keyed:
  "\<forall>op c. lookup m op = Some c \<longrightarrow> u_outPoint c = op \<Longrightarrow> pendingOK s \<Longrightarrow> pendingOK (addPending m op s)"
  by (auto simp: addPending_def pendingOK_def split: option.splits)

lemma loadLocked_keyed: "pendingOK s \<Longrightarrow> pendingOK (loadLocked H b txs coins s)"
proof -
  assume ok: "pendingOK s"
  let ?s = "s\<lparr>lockedUTXOs := coins, locked := locked s + valueOf (filter (\<lambda>u. u_confirmations u > 0) coins)\<rparr>"
  let ?m = "foldl (\<lambda>m (op, out, t). store m op \<lparr>u_outPoint = op, u_value = Value out, u_pkScript = PkScript out, u_confirmations = t_confirmations t\<rparr>) []
     (pegOutputs H (redeemFor s) (confirmed_in txs))"
  have "\<forall>op c. lookup ?m op = Some c \<longrightarrow> u_outPoint c = op"
    by (intro allI impI, erule confirmedCoin_keyed) simp
  moreover have "pendingOK ?s" using ok by (simp add: pendingOK_def)
  ultimately have "pendingOK (foldl (\<lambda>s op. addPending ?m op s) ?s ops)" for ops
    by (intro foldl_invariant [where P = pendingOK]) (auto intro: addPending_keyed)
  then show ?thesis by (simp add: loadLocked_def Let_def pendingOK_def)
qed

lemma pendingCoins_keeps [simp]:
  "pendingCoins (fst (loadSignerDogeTx H b t sd)) = pendingCoins (fst sd)"
  "pendingCoins (fst (loadUserOutput H b l td c t x sd)) = pendingCoins (fst sd)" "pendingCoins (classify d s) = pendingCoins s"
  by (cases sd; cases x; simp add: loadSignerDogeTx_def loadUserOutput_def classify_def Let_def split: option.split)+

lemma load_pendingOK:
  assumes "load H b vm doge registry f = Inr s"
  shows "pendingOK s"
proof -
  obtain s1 s2 s3 txs listed coins conflicted redeem dd where l: "loadVm H b vm emptyState = Inr s1"
    "s2 = s1\<lparr>redeemFor := redeem, depositDest := dd, dogeTxs := txs, dogeConflicted := conflicted\<rparr>"
    "s3 = foldl (\<lambda>s d. classify d s) (fst (readDogeTxs H b listed s2)) (snd (readDogeTxs H b listed s2))"
    "s = (loadLocked H b txs coins s3)\<lparr>deposits := sort_key (\<lambda>d. - d_confirmations d) (deposits s3),
       pegOuts := sort_key (\<lambda>p. - p_confirmations p) (pegOuts (loadLocked H b txs coins s3))\<rparr>"
    by (rule load_InrE [OF assms]) blast
  have "pendingCoins s3 = pendingCoins s1"
    unfolding l(3) by (simp add: foldl_keeps [where m = pendingCoins] readDogeTxs_def
        foldl_keeps [where m = "\<lambda>sd. pendingCoins (fst sd)"] loadDogeTx_def l(2))
  moreover have "pendingCoins s1 = []" unfolding loadVm_keeps(7) [OF l(1)] by (simp add: emptyState_def)
  ultimately have "pendingOK s3" by (simp add: pendingOK_def)
  note ok = loadLocked_keyed [OF this, of H b txs coins]
  show ?thesis by (subst pendingOK_cong [of s "loadLocked H b txs coins s3"]) (simp_all add: l(4) ok del: loadLocked_simps)
qed

lemma pending_inputs:
  assumes "map (\<lambda>ti. lookup (pendingCoins s) (PreviousOutPoint ti)) ins = map Some inputs" "pendingOK s"
  shows "map PreviousOutPoint ins = map u_outPoint inputs" "\<forall>u \<in> set inputs. ownCoin s (u_outPoint u)"
  using assms
proof (induction ins arbitrary: inputs)
  case (Cons ti ins)
  { case 1 then show ?case using Cons.IH(1) [of "tl inputs"] by (cases inputs) (auto simp: pendingOK_def) }
  { case 2 then show ?case using Cons.IH(2) [of "tl inputs"] by (cases inputs) (auto simp: pendingOK_def ownCoin_def has_key_def) }
qed simp_all

lemma nextFence_spends:
  assumes "nextFence H b now s chn recorded = Inr (tx, inputs, fee)" "pendingOK s"
  shows "spendsAny tx recorded" "\<forall>u \<in> set inputs. ownCoin s (u_outPoint u)"
proof -
  have prev: "map PreviousOutPoint (TxIn tx) = map u_outPoint inputs"
    using buildFence_Inr [OF nextFence_built [OF assms(1)]] by metis
  have any: "spendsAny tx recorded \<longleftrightarrow> (\<exists>op \<in> set (map PreviousOutPoint (TxIn tx)). op \<in> set recorded)"
    by (simp add: spendsAny_def list_ex_iff)
  obtain p sh where st: "fenceState H s chn recorded = (p, sh)" by (cases "fenceState H s chn recorded")
  have "spendsAny tx recorded \<and> (\<forall>u \<in> set inputs. ownCoin s (u_outPoint u))"
  proof (cases p)
    case None
    with st have n: "fst (fenceState H s chn recorded) = None" by simp
    obtain coins k where "fenceInputs s chn recorded = Inr coins" "inputs = take k coins"
      using nextFence_new(1) [OF assms(1) n] trimToSize_prefix by blast
    then have "\<forall>u \<in> set inputs. ownCoin s (u_outPoint u)"
      unfolding ownCoin_def by (metis (no_types, lifting) fenceInputs_own image_eqI in_set_takeD)
    moreover have "spendsAny tx recorded"
      using nextFence_new(2) [OF assms(1) n] unfolding any prev by (auto simp: spendsRecorded_def list_ex_iff)
    ultimately show ?thesis by blast
  next
    case (Some t)
    then have f: "fenceState H s chn recorded = (Some t, sh)" by (simp add: st)
    note look = nextFence_bump(2) [OF assms(1) f]
    from pending_inputs [OF look assms(2)] have "set (map u_outPoint inputs) = PreviousOutPoint ` set (TxIn (t_tx t))"
      by (metis list.set_map)
    then show ?thesis unfolding any prev
      using pending_inputs(2) [OF look assms(2)] fenceState_pending(2) [OF f]
      by (auto simp: isFenceOf_def spendsAny_def list_ex_iff)
  qed
  then show "spendsAny tx recorded" "\<forall>u \<in> set inputs. ownCoin s (u_outPoint u)" by blast+
qed


section \<open>Samples\<close>

definition sampleLocked :: pegState where
  "sampleLocked = sampleHeld\<lparr>lockedUTXOs := [coinOf sampleCoin 900000000 40], pegAnchor := Some (coinOf sampleCoin 900000000 40)\<rparr>"

definition sampleFence :: "cerr + MsgTx \<times> utxo list \<times> int" where
  "sampleFence = nextFence sampleHashes sampleBridge 5000 sampleLocked chainDogecoin [sampleCoin]"

definition sampleFenceTx :: MsgTx where
  "sampleFenceTx = (case sampleFence of Inr (tx, inputs, fee) \<Rightarrow> tx | Inl e \<Rightarrow> sampleTx)"

definition sampleSigs :: "(nat, bytes list) gomap" where
  "sampleSigs = [(0, [replicate 72 1]), (2, [replicate 73 2])]"

lemma sample_fence:
  "sampleFence = Inr (sampleFenceTx, [coinOf sampleCoin 900000000 40], 100000000)"
  "is_ok (assemble sampleSigners sampleFenceTx [redeemScript sampleSigners] sampleSigs)"
  by code_simp+

text \<open>Three signers of which two sign; one contribution of 9 DOGE has been counted.\<close>

definition sampleCutLog :: signingLog where
  "sampleCutLog = createSigningLog\<lparr>CutoverEpoch := 1, FenceBudget := 450000000, FenceCapital := [OutPoint_String sampleCoin]\<rparr>"

definition sampleCutSigner :: cosigner where
  "sampleCutSigner = sampleSigner\<lparr>c_log := sampleCutLog\<rparr>"

definition sampleFenceKey :: string where
  "sampleFenceKey = actionFence @ '':'' @ OutPoint_String sampleCoin"

definition sampleFenceLog :: signingLog where
  "sampleFenceLog = log_record sampleHashes 5000 sampleFenceKey chainDogecoin sampleFenceTx 0 100000000 sampleCutLog"

section \<open>Properties\<close>

text \<open>C29: the fence a cutover calls for next spends coins of the signers alone, one of them recorded, pays everything
  but its fee back to the signers, and its tag names its first input.\<close>

theorem fence_returns_to_set:
  assumes "nextFence H b now s chn recorded = Inr (tx, inputs, fee)" "pendingOK s" "wf_OutPoint (u_outPoint (hd inputs))"
  shows "map PreviousOutPoint (TxIn tx) = map u_outPoint inputs \<and> (\<forall>u \<in> set inputs. ownCoin s (u_outPoint u))
     \<and> spendsAny tx recorded \<and> parseFence tx = Some (u_outPoint (hd inputs))
     \<and> (\<forall>out \<in> set (TxOut tx). Value out \<noteq> 0 \<longrightarrow> PkScript out = signers_pkScript H (signers b))
     \<and> paidOut tx + fee = valueOf inputs \<and> pegDust \<le> paidOut tx"
proof -
  note b = nextFence_built [OF assms(1)]
  obtain tag where t: "pegDust \<le> valueOf inputs - fee" "nullData (encodeFence (u_outPoint (hd inputs))) = Some tag"
    "TxOut tx = [NewTxOut (valueOf inputs - fee) (signers_pkScript H (signers b)), tag]"
    "map PreviousOutPoint (TxIn tx) = map u_outPoint inputs"
    using buildFence_Inr [OF b] by metis
  have "Value tag = 0" using nullData_shape [OF t(2)] by simp
  moreover have "paidOut tx = valueOf inputs - fee"
    using fee_outs [of tx "[NewTxOut (valueOf inputs - fee) (signers_pkScript H (signers b))]" tag, OF _ t(2)] t(3) by (simp add: NewTxOut_def)
  ultimately show ?thesis
    using t nextFence_spends [OF assms(1,2)] parseFence_build [OF b assms(3)] by (auto simp: NewTxOut_def)
qed

theorem fence_returns_to_set_witness:
  "parseFence sampleFenceTx = Some sampleCoin \<and> spendsAny sampleFenceTx [sampleCoin] \<and> paidOut sampleFenceTx = 800000000"
proof -
  have "nextFence sampleHashes sampleBridge 5000 sampleLocked chainDogecoin [sampleCoin]
      = Inr (sampleFenceTx, [coinOf sampleCoin 900000000 40], 100000000)" using sample_fence(1) by (simp add: sampleFence_def)
  moreover have "pendingOK sampleLocked" by (simp add: pendingOK_def sampleLocked_def sampleHeld_def emptyState_def)
  moreover have "wf_OutPoint (u_outPoint (hd [coinOf sampleCoin 900000000 40]))" using wf_samples(4) by (simp add: coinOf_def)
  ultimately show ?thesis using fence_returns_to_set by (fastforce simp: coinOf_def valueOf_def)
qed

text \<open>C30: once signed, a fence is never larger than the size its fee was computed from.\<close>

theorem signed_fence_size:
  assumes "buildFence H b chn inputs fee = Inr tx" "wf_OutPoint (u_outPoint (hd inputs))" "length inputs < 2 ^ 32"
    "assemble ss tx redeems sigs = Inr tx'" "Required ss \<le> 20" "\<forall>r \<in> set redeems. length r \<le> MaxScriptElementSize"
    "\<forall>k sg. lookup sigs k = Some sg \<longrightarrow> length sg = length (TxIn tx) \<and> list_all (\<lambda>d. length d \<le> 73) sg"
  shows "SerializeSize tx' \<le> fenceSize redeems (Required ss)"
proof -
  note a = assemble_Inr [OF assms(4)]
  obtain tag where t: "nullData (encodeFence (u_outPoint (hd inputs))) = Some tag"
    "TxOut tx = [NewTxOut (valueOf inputs - fee) (signers_pkScript H (signers b)), tag]"
    "map PreviousOutPoint (TxIn tx) = map u_outPoint inputs" "\<forall>ti \<in> set (TxIn tx). SignatureScript ti = [] \<and> Witness ti = []"
    using buildFence_Inr [OF assms(1)] by metis
  have n: "length (TxIn tx') = length redeems" "length redeems < 2 ^ 32"
    using unsignedTx_sizes(2) [OF a(3)] a(2) arg_cong [OF t(3), of length] assms(3) by simp_all
  have "sum_list (map TxOut_SerializeSize (TxOut tx')) = (8 + 1 + 23) + (8 + 1 + 2 + 4 + 36)"
    unfolding unsignedTx_sizes(1) [OF a(3)] t(2) using set_size tag_size [OF assms(2) t(1)] by simp
  moreover have "VarIntSerializeSize (length (TxOut tx')) = 1"
    unfolding unsignedTx_sizes(1) [OF a(3)] t(2) by (simp add: VarIntSerializeSize_def)
  moreover have "VarIntSerializeSize (length (TxIn tx')) = varIntLen (length redeems)"
    using n by (simp add: varInt_eq)
  moreover have "SerializeSize tx' = baseSize tx'" using assemble_witness [OF assms(4)] t(4) by (simp add: SerializeSize_def Let_def)
  ultimately show ?thesis
    using assembled_inputs [OF assms(4,7,5,6)] by (simp add: baseSize_sum fenceSize_def)
qed

theorem signed_fence_size_witness:
  "\<exists>tx'. assemble sampleSigners sampleFenceTx [redeemScript sampleSigners] sampleSigs = Inr tx'
     \<and> SerializeSize tx' \<le> fenceSize [redeemScript sampleSigners] 2"
proof -
  obtain tx' where tx': "assemble sampleSigners sampleFenceTx [redeemScript sampleSigners] sampleSigs = Inr tx'"
    using sample_fence(2) by (auto simp: is_ok_iff)
  have b: "buildFence sampleHashes sampleBridge chainDogecoin [coinOf sampleCoin 900000000 40] 100000000 = Inr sampleFenceTx"
    using nextFence_built sample_fence(1) unfolding sampleFence_def by blast
  have "length (TxIn sampleFenceTx) = 1" using buildFence_Inr [OF b] by (metis length_map length_Cons list.size(3) One_nat_def)
  then have "SerializeSize tx' \<le> fenceSize [redeemScript sampleSigners] (Required sampleSigners)"
    using wf_samples(4) by (intro signed_fence_size [OF b _ _ tx'])
      (auto simp: coinOf_def sampleSigners_def MaxScriptElementSize_def sampleSigs_def lookup_def split: if_splits)
  then show ?thesis using tx' by (auto simp: sampleSigners_def)
qed

text \<open>C31: a signer in a cutover that has room for a fence or a cancellation and records it has promised, over its
  whole life, fees from the surplus of at most its budget.\<close>

theorem fence_budget_kept:
  assumes "cutoverBudgetRoom e s key fee c = (Inr (), c')" "CutoverEpoch (c_log c) \<noteq> 0"
    "distinct (map fst (Actions (c_log c)))" "isSurplusKey key" "0 \<le> fee"
  shows "spentSurplus (log_record H now key chn tx v fee (c_log c')) \<le> FenceBudget (c_log c')"
proof -
  note r = cutoverBudgetRoom_Inr [OF assms(1,2)]
  have "Actions (c_log c') = Actions (c_log c)" by (simp add: r(1) addFenceCapital_keeps)
  then show ?thesis using r(2) spentSurplus_record [of "c_log c'", OF _ assms(4,5)] assms(3) by simp
qed

theorem fence_budget_kept_witness:
  "spentSurplus (log_record sampleHashes 5000 sampleFenceKey chainDogecoin sampleFenceTx 0 100000000 sampleCutLog) \<le> 450000000"
proof -
  have "CutoverEpoch (c_log sampleCutSigner) \<noteq> 0" "Actions (c_log sampleCutSigner) = []" "isSurplusKey sampleFenceKey"
    by (simp_all add: sampleCutSigner_def sampleCutLog_def createSigningLog_def isSurplusKey_def sampleFenceKey_def actionFence_def)
  moreover have "cutoverBudgetRoom sampleEnv sampleLocked sampleFenceKey 100000000 sampleCutSigner = (Inr (), sampleCutSigner)"
    by (simp add: cutoverBudgetRoom_def effect_run addFenceCapital_def sampleCutSigner_def sampleCutLog_def createSigningLog_def
        sampleLocked_def sampleHeld_def emptyState_def setLog_def fenceFees_def sampleSigner_def)
  ultimately show ?thesis using fence_budget_kept [of sampleEnv sampleLocked sampleFenceKey 100000000 sampleCutSigner sampleCutSigner]
    by (simp add: sampleCutSigner_def sampleCutLog_def)
qed



end
