(* ===== verification/Auth.thy ===== *)
theory Auth
  imports Signing Effects
begin

text \<open>
  Requests to a signer, \<open>cmd/dogevm/cosign.go\<close>: what a request signs, the cache of nonces, and who may
  make a signer do anything.  Times are nanoseconds of the signer's clock; a Unix time is its seconds.
\<close>

section \<open>What a request signs\<close>

definition textBytes :: "string \<Rightarrow> bytes" where
  "textBytes s = map (\<lambda>c. word_of_nat (of_char c)) s"

definition newline :: string where "newline = [char_of (10 :: nat)]"

definition second :: int where "second = 1000000000"

definition requestSkew :: int where "requestSkew = 5 * 60 * second"

definition unixOf :: "int \<Rightarrow> int" where "unixOf t = t div second"

definition requestDigest :: "hashes \<Rightarrow> string \<Rightarrow> string \<Rightarrow> int \<Rightarrow> string \<Rightarrow> string \<Rightarrow> bytes \<Rightarrow> bytes" where
  "requestDigest H meth path unix nonce signer body =
     sha256 H (textBytes (''dogevm coordinator request v2'' @ newline @ meth @ newline @ path @ newline @ formatInt unix @ newline
       @ nonce @ newline @ signer @ newline @ hexEncode (sha256 H body)))"

section \<open>Nonces\<close>

type_synonym nonceCache = "(string, int) gomap"

definition maxNonces :: nat where "maxNonces = 100000"

definition fresh :: "string \<Rightarrow> int \<Rightarrow> nonceCache \<Rightarrow> bool \<times> nonceCache" where
  "fresh nonce now seen =
     (if has_key seen nonce then (False, seen)
      else let seen = (if length seen \<ge> maxNonces then filter (\<lambda>(k, until). \<not> until < unixOf now) seen else seen) in
      if length seen \<ge> maxNonces then (False, seen)
      else (True, store seen nonce (unixOf (now + 2 * requestSkew))))"

section \<open>Authentication\<close>

record request =
  r_method :: string
  r_path :: string
  r_authorization :: string
  r_time :: string
  r_nonce :: string
  r_signature :: string
  r_body :: bytes

text \<open>What of a signer's configuration decides who may talk to it.\<close>

record access =
  x_token :: string
  x_coordKey :: "bytes option"
  x_open :: bool
  x_me :: bytes

datatype authErr = BodyTooLarge | BadToken | NotSigned | FarFromClock | NoNonce | WrongSignature | Replayed | NoAccess

definition trimPrefix :: "string \<Rightarrow> string \<Rightarrow> string" where
  "trimPrefix p s = (if take (length p) s = p then drop (length p) s else s)"

definition checkToken :: "access \<Rightarrow> request \<Rightarrow> authErr + unit" where
  "checkToken x r = guardr (x_token x = [] \<or> trimPrefix ''Bearer '' (r_authorization r) = x_token x) BadToken"

definition checkCoordinator :: "hashes \<Rightarrow> ecdsa \<Rightarrow> access \<Rightarrow> bytes \<Rightarrow> int \<Rightarrow> request \<Rightarrow> authErr + unit" where
  "checkCoordinator H E x coord now r = (case parseInt64 (r_time r) of
     None \<Rightarrow> Inl NotSigned
   | Some unix \<Rightarrow>
       let d = now - unix * second in
       if d > requestSkew \<or> d < - requestSkew then Inl FarFromClock
       else case hexDecode (r_nonce r) of
         None \<Rightarrow> Inl NoNonce
       | Some raw \<Rightarrow> if length raw \<noteq> 16 then Inl NoNonce
           else case hexDecode (r_signature r) of
             None \<Rightarrow> Inl NotSigned
           | Some sig \<Rightarrow> guardr (verifyHash E coord
               (requestDigest H (r_method r) (r_path r) unix (r_nonce r) (hexEncode (x_me x)) (r_body r)) sig) WrongSignature)"

text \<open>\<open>now\<close> is the clock when the time is checked, \<open>later\<close> when the nonce is.\<close>

definition authenticate :: "hashes \<Rightarrow> ecdsa \<Rightarrow> access \<Rightarrow> int \<Rightarrow> int \<Rightarrow> request \<Rightarrow> (nonceCache, authErr, bytes) effect" where
  "authenticate H E x now later r =
     bindm (guardm (length (r_body r) \<le> 2 ^ 20) BodyTooLarge) (\<lambda>_.
     bindm (liftm (checkToken x r)) (\<lambda>_.
     bindm (case x_coordKey x of
         None \<Rightarrow> retm ()
       | Some coord \<Rightarrow>
           bindm (liftm (checkCoordinator H E x coord now r)) (\<lambda>_.
           bindm (\<lambda>seen. case fresh (r_nonce r) later seen of (new, seen) \<Rightarrow> (Inr new, seen)) (\<lambda>new.
           guardm new Replayed))) (\<lambda>_.
     bindm (guardm (\<not> (x_token x = [] \<and> x_coordKey x = None \<and> \<not> x_open x)) NoAccess) (\<lambda>_.
     retm (r_body r)))))"

section \<open>Serving requests in turn\<close>

record arrival =
  a_now :: int
  a_later :: int
  a_request :: request

fun serve :: "hashes \<Rightarrow> ecdsa \<Rightarrow> access \<Rightarrow> arrival list \<Rightarrow> nonceCache \<Rightarrow> bool list" where
  "serve H E x [] seen = []"
| "serve H E x (a # as) seen =
     (case authenticate H E x (a_now a) (a_later a) (a_request a) seen of (res, seen) \<Rightarrow> is_ok res # serve H E x as seen)"

text \<open>The clock does not run backwards.\<close>

fun clocked :: "int \<Rightarrow> arrival list \<Rightarrow> bool" where
  "clocked t [] = True"
| "clocked t (a # as) = (t \<le> a_now a \<and> a_now a \<le> a_later a \<and> clocked (a_later a) as)"

text \<open>
  The specification: a request is accepted only when it carries the token and the coordinator's signature, and
  never when one with its nonce and time was accepted before, however long ago.  It may always be refused.
\<close>

definition authentic :: "hashes \<Rightarrow> ecdsa \<Rightarrow> access \<Rightarrow> bytes \<Rightarrow> arrival \<Rightarrow> bool" where
  "authentic H E x coord a \<longleftrightarrow> is_ok (checkToken x (a_request a)) \<and> is_ok (checkCoordinator H E x coord (a_now a) (a_request a))"

definition stamp :: "request \<Rightarrow> string \<times> int" where
  "stamp r = (r_nonce r, case parseInt64 (r_time r) of None \<Rightarrow> 0 | Some unix \<Rightarrow> unix)"

inductive allowed :: "(arrival \<Rightarrow> bool) \<Rightarrow> (string \<times> int) set \<Rightarrow> arrival list \<Rightarrow> bool list \<Rightarrow> bool" for ok where
  allowed_Nil: "allowed ok used [] []"
| allowed_refuse: "allowed ok used as bs \<Longrightarrow> allowed ok used (a # as) (False # bs)"
| allowed_accept: "ok a \<Longrightarrow> stamp (a_request a) \<notin> used \<Longrightarrow> allowed ok (insert (stamp (a_request a)) used) as bs \<Longrightarrow>
    allowed ok used (a # as) (True # bs)"

inductive_simps allowed_simps: "allowed ok used [] bs" "allowed ok used (a # as) (b # bs)"

section \<open>The cache forgets only what the clock refuses\<close>

definition remembers :: "int \<Rightarrow> (string \<times> int) set \<Rightarrow> nonceCache \<Rightarrow> bool" where
  "remembers t used seen \<longleftrightarrow> (\<forall>(nonce, unix) \<in> used.
     (\<exists>until. lookup seen nonce = Some until \<and> unix + 300 \<le> until) \<or> unix * second + requestSkew < t)"

lemma lookup_filter_keep: "lookup m k = Some v \<Longrightarrow> P (k, v) \<Longrightarrow> lookup (filter P m) k = Some v"
  by (induction m) (auto simp: lookup_def split: if_splits)

lemma remembers_later: "remembers t used seen \<Longrightarrow> t \<le> t' \<Longrightarrow> remembers t' used seen"
  by (fastforce simp: remembers_def)

lemma remembers_forget:
  assumes "remembers t used seen" "t \<le> later"
  shows "remembers later used (filter (\<lambda>(k, until). \<not> until < unixOf later) seen)"
  unfolding remembers_def
proof (intro ballI, clarify)
  fix nonce unix
  assume "(nonce, unix) \<in> used" and no: "\<not> unix * second + requestSkew < later"
  with assms obtain until where u: "lookup seen nonce = Some until" "unix + 300 \<le> until" by (fastforce simp: remembers_def)
  have "later \<le> (unix + 300) * second" using no by (simp add: requestSkew_def second_def)
  then have "unixOf later \<le> unix + 300" using zdiv_mono1 [of later "(unix + 300) * second" second] by (simp add: unixOf_def second_def)
  with u show "\<exists>until. lookup (filter (\<lambda>(k, until). \<not> until < unixOf later) seen) nonce = Some until \<and> unix + 300 \<le> until"
    by (intro exI [of _ until]) (simp add: lookup_filter_keep)
qed

lemma fresh_remembers:
  assumes "fresh nonce later seen = (new, seen')" "remembers t used seen" "t \<le> later"
  shows "remembers later used seen'" "new \<Longrightarrow> lookup seen nonce = None \<and> lookup seen' nonce = Some (unixOf (later + 2 * requestSkew))"
proof -
  let ?f = "filter (\<lambda>(k, until). \<not> until < unixOf later) seen"
  have kept: "remembers later used seen" "remembers later used ?f"
    using remembers_later [OF assms(2,3)] remembers_forget [OF assms(2,3)] by simp_all
  have store: "remembers later used (store m nonce u)" if "remembers later used m" "lookup seen nonce = None" "m = seen \<or> m = ?f" for m u
    unfolding remembers_def
  proof (intro ballI, clarify)
    fix n unix assume n: "(n, unix) \<in> used" "\<not> unix * second + requestSkew < later"
    then have "n \<noteq> nonce" using that(2) kept(1) by (fastforce simp: remembers_def)
    then show "\<exists>until. lookup (store m nonce u) n = Some until \<and> unix + 300 \<le> until"
      using n that(1) by (fastforce simp: remembers_def)
  qed
  show "remembers later used seen'"
    using assms(1) kept store [OF kept(1)] store [OF kept(2)]
    by (auto simp: fresh_def Let_def has_key_def split: if_splits)
  show "new \<Longrightarrow> lookup seen nonce = None \<and> lookup seen' nonce = Some (unixOf (later + 2 * requestSkew))"
    using assms(1) by (auto simp: fresh_def Let_def has_key_def split: if_splits)
qed

lemma checkCoordinator_time:
  assumes "checkCoordinator H E x coord now r = Inr ()"
  obtains unix where "stamp r = (r_nonce r, unix)" "now - unix * second \<le> requestSkew" "unix * second - now \<le> requestSkew"
  using assms by (auto simp: checkCoordinator_def Let_def stamp_def not_less split: option.splits if_splits)

lemma authenticate_accepts:
  assumes "authenticate H E x now later r seen = (Inr body, seen')" "x_coordKey x = Some coord"
  shows "is_ok (checkToken x r)" "checkCoordinator H E x coord now r = Inr ()" "fresh (r_nonce r) later seen = (True, seen')"
  using assms by (auto simp: authenticate_def is_ok_iff split: prod.splits)

lemma authenticate_cache:
  assumes "authenticate H E x now later r seen = (res, seen')" "x_coordKey x = Some coord"
  shows "seen' = seen \<or> (\<exists>new. fresh (r_nonce r) later seen = (new, seen'))"
  using assms by (auto simp: authenticate_def effect_run split: sum.splits if_splits prod.splits)

text \<open>One request keeps the cache's promise.\<close>

lemma authenticate_step:
  assumes "authenticate H E x now later r seen = (res, seen')" "x_coordKey x = Some coord"
    "remembers t used seen" "t \<le> now" "now \<le> later"
  shows "remembers later used seen'" "is_ok res \<Longrightarrow> stamp r \<notin> used \<and> remembers later (insert (stamp r) used) seen'"
proof -
  have t: "t \<le> later" using assms(4,5) by simp
  show keep: "remembers later used seen'"
    using authenticate_cache [OF assms(1,2)] fresh_remembers(1) [OF _ assms(3) t] remembers_later [OF assms(3) t] by blast
  assume "is_ok res"
  then obtain body where ok: "authenticate H E x now later r seen = (Inr body, seen')" using assms(1) by (auto simp: is_ok_iff)
  note acc = authenticate_accepts [OF ok assms(2)]
  obtain unix where u: "stamp r = (r_nonce r, unix)" "now - unix * second \<le> requestSkew" "unix * second - now \<le> requestSkew"
    using checkCoordinator_time [OF acc(2)] .
  have new: "lookup seen (r_nonce r) = None" "lookup seen' (r_nonce r) = Some (unixOf (later + 2 * requestSkew))"
    using fresh_remembers(2) [OF acc(3) assms(3) t] by simp_all
  have "stamp r \<notin> used" using new(1) assms(3,4) u by (fastforce simp: remembers_def)
  moreover have "unix + 300 \<le> unixOf (later + 2 * requestSkew)"
  proof -
    have "(unix + 300) * second \<le> later + 2 * requestSkew" using u(3) assms(5) by (simp add: requestSkew_def second_def)
    then have "(unix + 300) * second div second \<le> unixOf (later + 2 * requestSkew)"
      unfolding unixOf_def by (rule zdiv_mono1) (simp add: second_def)
    then show ?thesis by (simp add: second_def)
  qed
  ultimately show "stamp r \<notin> used \<and> remembers later (insert (stamp r) used) seen'"
    using keep new(2) u(1) by (auto simp: remembers_def)
qed

lemma serve_allowed:
  assumes "x_coordKey x = Some coord"
  shows "clocked t as \<Longrightarrow> remembers t used seen \<Longrightarrow> allowed (authentic H E x coord) used as (serve H E x as seen)"
proof (induction as arbitrary: t used seen)
  case (Cons a as)
  obtain res seen' where r: "authenticate H E x (a_now a) (a_later a) (a_request a) seen = (res, seen')"
    by (cases "authenticate H E x (a_now a) (a_later a) (a_request a) seen")
  have t: "t \<le> a_now a" "a_now a \<le> a_later a" "clocked (a_later a) as" using Cons.prems(1) by simp_all
  note st = authenticate_step [OF r assms Cons.prems(2) t(1,2)]
  show ?case
  proof (cases "is_ok res")
    case True
    then obtain body where "res = Inr body" by (auto simp: is_ok_iff)
    with authenticate_accepts [of H E x "a_now a" "a_later a" "a_request a" seen body seen' coord] r assms
    have "authentic H E x coord a" by (auto simp: authentic_def is_ok_iff)
    with True st(2) Cons.IH [OF t(3)] show ?thesis by (auto simp: r allowed_simps)
  next
    case False
    with st(1) Cons.IH [OF t(3)] show ?thesis by (simp add: r allowed_simps)
  qed
qed (simp add: allowed_simps)

section \<open>Samples\<close>

definition sampleAccess :: access where
  "sampleAccess = \<lparr>x_token = ''k'', x_coordKey = Some [9], x_open = False, x_me = [3]\<rparr>"

definition sampleRequest :: request where
  "sampleRequest = (let n = ''000102030405060708090a0b0c0d0e0f'' in
     \<lparr>r_method = ''POST'', r_path = ''/v1/sign'', r_authorization = ''Bearer k'', r_time = ''1000'', r_nonce = n,
      r_signature = hexEncode (signHash sampleECDSA [9] (requestDigest sampleHashes ''POST'' ''/v1/sign'' 1000 n (hexEncode [3]) [])), r_body = []\<rparr>)"

text \<open>A request, its replay at once, and its replay six minutes later.\<close>

definition sampleArrivals :: "arrival list" where
  "sampleArrivals = [\<lparr>a_now = 1000 * second, a_later = 1000 * second + 5, a_request = sampleRequest\<rparr>,
     \<lparr>a_now = 1001 * second, a_later = 1001 * second, a_request = sampleRequest\<rparr>,
     \<lparr>a_now = 1360 * second, a_later = 1360 * second, a_request = sampleRequest\<rparr>]"

lemma sample_serve: "serve sampleHashes sampleECDSA sampleAccess sampleArrivals [] = [True, False, False]"
  by code_simp

section \<open>Properties\<close>

text \<open>C32: whatever arrives and however many requests the cache has forgotten, a signer with a coordinator key serves
  its requests as the specification allows: each one it accepts carries the token and the coordinator's signature
  for this signer, and none with the same nonce and time was accepted before.\<close>

theorem replays_are_refused:
  assumes "x_coordKey x = Some coord" "clocked t as"
  shows "allowed (authentic H E x coord) {} as (serve H E x as [])"
  by (rule serve_allowed [OF assms]) (simp add: remembers_def)

theorem replays_are_refused_witness:
  "allowed (authentic sampleHashes sampleECDSA sampleAccess [9]) {} sampleArrivals [True, False, False]"
proof -
  have "x_coordKey sampleAccess = Some [9]" by (simp add: sampleAccess_def)
  moreover have "clocked 0 sampleArrivals" by (simp add: sampleArrivals_def second_def)
  ultimately show ?thesis using replays_are_refused [of sampleAccess "[9]" 0 sampleArrivals sampleHashes sampleECDSA]
    unfolding sample_serve by blast
qed

end
