(* ===== verification/Cosigner.thy ===== *)
theory Cosigner
  imports Fence Auth
begin

text \<open>
  A signer beside its checks: registering deposit addresses, catching up with its node, the quarantine of a log
  that lacks a signature, adopting signatures and setting anchors.  From \<open>cmd/dogevm/cosign.go\<close>,
  \<open>fence.go\<close>, \<open>registry.go\<close>, \<open>pause.go\<close> and \<open>main.go\<close>.
\<close>

section \<open>Registration\<close>

definition defaultMaxRegistrations :: int where "defaultMaxRegistrations = 600"

definition registry_has :: "env \<Rightarrow> destination \<Rightarrow> bool signer" where
  "registry_has e d = bindm (guardm (e_reads e) (Failed ReadFailed)) (\<lambda>_. readm (\<lambda>c. d \<in> set (c_registry c)))"

definition registry_add :: "env \<Rightarrow> destination \<Rightarrow> bool signer" where
  "registry_add e d =
     bindm (registry_has e d) (\<lambda>known.
     if known then retm False
     else bindm (guardm (e_writes e) WriteFailed) (\<lambda>_.
          bindm (modifym (\<lambda>c. c\<lparr>c_registry := c_registry c @ [d]\<rparr>)) (\<lambda>_. retm True)))"

text \<open>The result is the script of the address.  A signer has no remote signers of its own to tell.\<close>

definition registerDeposit :: "hashes \<Rightarrow> env \<Rightarrow> destination \<Rightarrow> bytes signer" where
  "registerDeposit H e d =
     bindm (registry_add e d) (\<lambda>added.
     bindm (guardm (added \<longrightarrow> e_import e = None \<or> e_watches e) WatchFailed) (\<lambda>_.
     readm (\<lambda>c. p2shScript H (depositRedeemScript (signers (c_bridge c)) d))))"

definition register :: "hashes \<Rightarrow> env \<Rightarrow> destination \<Rightarrow> bytes signer" where
  "register H e d =
     bindm (registry_has e d) (\<lambda>known.
     bindm (if known then retm ()
       else bindm (readm id) (\<lambda>c.
         let limit = (if c_maxRegistrations c \<le> 0 then defaultMaxRegistrations else c_maxRegistrations c);
             recent = filter (\<lambda>t. e_now e - t < 3600) (c_registered c) in
         bindm (modifym (\<lambda>c. c\<lparr>c_registered := recent\<rparr>)) (\<lambda>_.
         bindm (guardm (int (length recent) < limit) TooManyRegistrations) (\<lambda>_.
         modifym (\<lambda>c. c\<lparr>c_registered := recent @ [e_now e]\<rparr>))))) (\<lambda>_.
     registerDeposit H e d))"

definition handleRegister :: "hashes \<Rightarrow> env \<Rightarrow> string \<Rightarrow> bytes signer" where
  "handleRegister H e text = bindm (liftm (parseDest text)) (register H e)"

section \<open>Reading the chains\<close>

definition paused :: "env \<Rightarrow> bool" where
  "paused e = (e_pause e \<noteq> NoFile)"

definition loadWith :: "hashes \<Rightarrow> env \<Rightarrow> chain \<Rightarrow> cosigner \<Rightarrow> cerr + pegState" where
  "loadWith H e doge c = (case load H (c_bridge c) (e_vm e) doge (if e_reads e then Inr (c_registry c) else Inl ReadFailed) (e_listed e) of
     Inl x \<Rightarrow> Inl (Failed x) | Inr s \<Rightarrow> Inr s)"

definition findDeposit :: "deposit list \<Rightarrow> OutPoint \<Rightarrow> deposit option" where
  "findDeposit ds op = List.find (\<lambda>d. d_outPoint d = op) ds"

definition findPegOut :: "pegOut list \<Rightarrow> bytes \<Rightarrow> pegOut option" where
  "findPegOut ps txid = List.find (\<lambda>p. p_txid p = txid) ps"

record signRequest =
  q_chain :: string
  q_action :: action
  q_tx :: string
  q_register :: "string list"
  q_fee :: int

definition missingTxs :: "pegState \<Rightarrow> signRequest \<Rightarrow> MsgTx \<Rightarrow> cerr + bytes list" where
  "missingTxs s req tx =
     bindr (if Kind (q_action req) = actionRelease \<or> Kind (q_action req) = actionRefund
            then (case parseOutPoint (Deposit (q_action req)) of
               None \<Rightarrow> Inl BadTarget
             | Some op \<Rightarrow> Inr (if findDeposit (deposits s) op = None \<and> findDeposit (held s) op = None \<and> \<not> has_key (released s) op
                              then [Hash op] else []))
            else Inr []) (\<lambda>missing.
     Inr (missing @ (if q_chain req = chainDogecoin
       then map (\<lambda>ti. Hash (PreviousOutPoint ti)) (filter (\<lambda>ti. \<not> containsOutPoint (lockedUTXOs s) (PreviousOutPoint ti)) (TxIn tx))
       else [])))"

text \<open>The state, and the Dogecoin node as it is from then on.\<close>

definition catchUp :: "hashes \<Rightarrow> env \<Rightarrow> pegState \<Rightarrow> signRequest \<Rightarrow> MsgTx \<Rightarrow> cosigner \<Rightarrow> cerr + pegState \<times> chain" where
  "catchUp H e s req tx c = (case e_import e of
     None \<Rightarrow> Inr (s, e_doge e)
   | Some importTx \<Rightarrow> bindr (missingTxs s req tx) (\<lambda>missing.
       if missing = [] then Inr (s, e_doge e)
       else bindr (loadWith H e (importTx missing) c) (\<lambda>s. Inr (s, importTx missing))))"

section \<open>Signatures the log lacks\<close>

fun unloggedLoop :: "hashes \<Rightarrow> ecdsa \<Rightarrow> signerSet \<Rightarrow> bytes \<Rightarrow> string list \<Rightarrow> chainTx list \<Rightarrow> (bytes, bool) gomap \<Rightarrow>
    string list \<times> (bytes, bool) gomap" where
  "unloggedLoop H E ss pub logged [] mine = ([], mine)"
| "unloggedLoop H E ss pub logged (t # ts) mine =
     (let txid = TxHash H (t_tx t);
          signed = (case lookup mine txid of Some known \<Rightarrow> known | None \<Rightarrow> signedBy H E ss pub (t_tx t));
          mine = (if has_key mine txid then mine else store mine txid signed) in
      case unloggedLoop H E ss pub logged ts mine of (missing, mine) \<Rightarrow>
        (if signed \<and> Hash_String (unsignedHash H (t_tx t)) \<notin> set logged then Hash_String txid # missing else missing, mine))"

definition unlogged :: "hashes \<Rightarrow> ecdsa \<Rightarrow> pegState \<Rightarrow> string list signer" where
  "unlogged H E s = (\<lambda>c. case unloggedLoop H E (signers (c_bridge c)) (pubOf E (c_key c)) (txids (c_log c)) (vmTxs s @ dogeTxs s) (c_mine c) of
     (missing, mine) \<Rightarrow> (Inr missing, c\<lparr>c_mine := mine\<rparr>))"

definition quarantined :: "cosigner \<Rightarrow> string" where
  "quarantined c = (case c_marker c of
     NoFile \<Rightarrow> []
   | Unreadable \<Rightarrow> ''the quarantine marker can't be read''
   | Contents raw \<Rightarrow> trimSpace raw)"

definition quarantine :: "env \<Rightarrow> string \<Rightarrow> unit signer" where
  "quarantine e reason =
     bindm (if e_writes e then modifym (\<lambda>c. c\<lparr>c_marker := Contents (reason @ newline)\<rparr>) else retm ()) (\<lambda>_. failm Quarantined)"

fun joinWith :: "string \<Rightarrow> string list \<Rightarrow> string" where
  "joinWith sep [] = []"
| "joinWith sep [x] = x"
| "joinWith sep (x # y # xs) = x @ sep @ joinWith sep (y # xs)"

definition unloggedReason :: "string list \<Rightarrow> string \<Rightarrow> string" where
  "unloggedReason missing path = ''the chains show this signer signed '' @ joinWith '', '' missing @ '', which its signing log '' @ path
     @ '' does not hold: the log is older than what this key has signed (a restored backup or a copy)''"

definition cosigner_fence :: "hashes \<Rightarrow> ecdsa \<Rightarrow> env \<Rightarrow> pegState \<Rightarrow> unit signer" where
  "cosigner_fence H E e s =
     bindm (readm quarantined) (\<lambda>reason.
     bindm (guardm (reason = []) Quarantined) (\<lambda>_.
     bindm (unlogged H E s) (\<lambda>missing.
     if missing = [] then retm () else bindm (readm c_path) (\<lambda>path. quarantine e (unloggedReason missing path)))))"

section \<open>Anchors\<close>

definition lineFor :: "pegState \<Rightarrow> string \<Rightarrow> lineage" where
  "lineFor s chn = (if chn = chainDogecoinVM then reserveLine s else pegLine s)"

definition probeTx :: "OutPoint \<Rightarrow> MsgTx" where
  "probeTx op = AddTxIn (NewTxIn op [] []) (NewMsgTx 1)"

definition checkAnchor :: "hashes \<Rightarrow> pegState \<Rightarrow> signingLog \<Rightarrow> string \<times> string \<Rightarrow> cerr + (string \<times> string) list" where
  "checkAnchor H s l = (\<lambda>(chn, tp). case parseOutPoint tp of
     None \<Rightarrow> Inl BadTarget
   | Some op \<Rightarrow> if get_or (Anchors l) chn [] = [] then Inr [(chn, tp)]
       else case anchorMoved H l chn (probeTx op) None (Some (lineFor s chn)) of Inl x \<Rightarrow> Inl AnchorAstray | Inr _ \<Rightarrow> Inr [])"

definition fillAnchors :: "hashes \<Rightarrow> pegState \<Rightarrow> (string, string) gomap signer" where
  "fillAnchors H s =
     bindm (liftm (tips H s)) (\<lambda>t.
     bindm (readm c_log) (\<lambda>l.
     bindm (liftm (collect (map (checkAnchor H s l) t))) (\<lambda>ss.
     bindm (setLog (\<lambda>l. l\<lparr>Anchors := foldl (\<lambda>m (chn, tp). store m chn tp) (Anchors l) (concat ss)\<rparr>)) (\<lambda>_.
     retm t))))"

fun walkLine :: "hashes \<Rightarrow> lineage \<Rightarrow> nat \<Rightarrow> OutPoint \<Rightarrow> (perr + OutPoint) option" where
  "walkLine H line 0 cur = None"
| "walkLine H line (Suc n) cur = (case line_next H line cur of
     Inl x \<Rightarrow> Some (Inl x)
   | Inr (next, again) \<Rightarrow> if \<not> again then Some (Inr cur) else walkLine H line n next)"

text \<open>Where each anchor of a log leads: an outpoint, or an error.\<close>

definition walkedTips :: "hashes \<Rightarrow> signingLog \<Rightarrow> pegState \<Rightarrow> (string, cerr + OutPoint) gomap" where
  "walkedTips H l s = concat (map (\<lambda>chn.
     let last = get_or (Anchors l) chn []; line = lineFor s chn in
     if last = [] then []
     else case parseOutPoint last of
       None \<Rightarrow> [(chn, Inl BadAnchor)]
     | Some cur \<Rightarrow> (case walkLine H line (length (l_coins line) + 2) cur of
         None \<Rightarrow> []
       | Some (Inl x) \<Rightarrow> [(chn, Inl (Failed x))]
       | Some (Inr op) \<Rightarrow> [(chn, Inr op)])) cutoverChains)"

section \<open>Adopting signatures\<close>

definition adoptedAction :: "MsgTx \<Rightarrow> action option" where
  "adoptedAction tx =
     (let about = (\<lambda>k op. \<lparr>Kind = k, Deposit = OutPoint_String op, PegOut = [], To = []\<rparr>) in
      case parseRelease tx of Some op \<Rightarrow> Some (about actionRelease op) | None \<Rightarrow>
     (case parsePayment tx of Some txid \<Rightarrow> Some \<lparr>Kind = actionPayout, Deposit = [], PegOut = Hash_String txid, To = []\<rparr> | None \<Rightarrow>
     (case parseRefund tx of Some op \<Rightarrow> Some (about actionRefund op) | None \<Rightarrow>
     (case parseCancel tx of Some op \<Rightarrow> Some (about actionCancel op) | None \<Rightarrow>
      map_option (about actionFence) (parseFence tx)))))"

definition adoptedKey :: "MsgTx \<Rightarrow> string option" where
  "adoptedKey tx = (case adoptedAction tx of
     None \<Rightarrow> None
   | Some a \<Rightarrow> (case action_key a of Inl x \<Rightarrow> None | Inr key \<Rightarrow> Some key))"

definition txsByID :: "hashes \<Rightarrow> chainTx list \<Rightarrow> (string, chainTx) gomap" where
  "txsByID H txs = foldl (\<lambda>m t. store m (Hash_String (TxHash H (t_tx t))) t) [] txs"

definition adoptable :: "(string, chainTx) gomap \<Rightarrow> string \<Rightarrow> cerr + string \<times> string \<times> chainTx" where
  "adoptable byID txid = (case lookup byID txid of
     None \<Rightarrow> Inl NotInABlock
   | Some t \<Rightarrow> if t_confirmations t \<le> 0 then Inl NotInABlock
       else case adoptedKey (t_tx t) of None \<Rightarrow> Inl UnknownTags | Some key \<Rightarrow> Inr (txid, key, t))"

definition adoptTx :: "hashes \<Rightarrow> signingLog \<Rightarrow> string \<times> string \<times> chainTx \<Rightarrow> signingLog" where
  "adoptTx H l = (\<lambda>(txid, key, t).
     let a = get_or (Actions l) key \<lparr>LValue = 0, First = t_time t, Txs = []\<rparr>;
         entry = \<lparr>Txid = Hash_String (unsignedHash H (t_tx t)), Signed = [txid], Inputs = inputTexts (t_tx t), Chain = [], Fee = 0\<rparr> in
     l\<lparr>Actions := store (Actions l) key (a\<lparr>Txs := Txs a @ [entry]\<rparr>)\<rparr>)"

definition adoptCutover :: "hashes \<Rightarrow> ecdsa \<Rightarrow> env \<Rightarrow> pegState \<Rightarrow> unit signer" where
  "adoptCutover H E e s =
     bindm (fillAnchors H s) (\<lambda>_.
     bindm (setLog (\<lambda>l. l\<lparr>History := []\<rparr>)) (\<lambda>_. startCutover H E e s))"

definition adopt :: "hashes \<Rightarrow> ecdsa \<Rightarrow> env \<Rightarrow> pegState \<Rightarrow> string list signer" where
  "adopt H E e s =
     bindm (unlogged H E s) (\<lambda>missing.
     if missing = [] then bindm (adoptCutover H E e s) (\<lambda>_. retm [])
     else bindm (liftm (collect (map (adoptable (txsByID H (vmTxs s @ dogeTxs s))) missing))) (\<lambda>found.
          bindm (setLog (\<lambda>l. foldl (adoptTx H) l found)) (\<lambda>_.
          bindm (adoptCutover H E e s) (\<lambda>_. retm missing))))"


section \<open>The cache of checked transactions\<close>

lemma unloggedLoop_mine:
  "unloggedLoop H E ss pub logged ts mine = (missing, mine') \<Longrightarrow>
   (\<forall>k b. lookup mine k = Some b \<longrightarrow> lookup mine' k = Some b) \<and>
   (\<forall>t \<in> set ts. \<exists>b. lookup mine' (TxHash H (t_tx t)) = Some b \<and>
      (b \<and> Hash_String (unsignedHash H (t_tx t)) \<notin> set logged \<longrightarrow> Hash_String (TxHash H (t_tx t)) \<in> set missing))"
proof (induction ts arbitrary: mine missing mine')
  case (Cons t ts)
  let ?id = "TxHash H (t_tx t)"
  let ?signed = "case lookup mine ?id of Some known \<Rightarrow> known | None \<Rightarrow> signedBy H E ss pub (t_tx t)"
  let ?mine = "if has_key mine ?id then mine else store mine ?id ?signed"
  obtain ms m where r: "unloggedLoop H E ss pub logged ts ?mine = (ms, m)" by (cases "unloggedLoop H E ss pub logged ts ?mine")
  have eq: "mine' = m" "missing = (if ?signed \<and> Hash_String (unsignedHash H (t_tx t)) \<notin> set logged then Hash_String ?id # ms else ms)"
    using Cons.prems by (simp_all only: unloggedLoop.simps Let_def r prod.case prod.inject)
  note IH = Cons.IH [OF r]
  have here: "lookup ?mine ?id = Some ?signed" by (auto simp: has_key_def split: option.splits)
  have old: "lookup mine k = Some b \<Longrightarrow> lookup ?mine k = Some b" for k b by (auto simp: has_key_def)
  have "set ms \<subseteq> set missing" by (auto simp: eq(2))
  then show ?case using IH here old by (auto simp: eq)
qed simp

lemma unloggedLoop_none:
  "\<forall>t \<in> set ts. \<exists>b. lookup mine (TxHash H (t_tx t)) = Some b \<and> (b \<longrightarrow> Hash_String (unsignedHash H (t_tx t)) \<in> set logged) \<Longrightarrow>
   unloggedLoop H E ss pub logged ts mine = ([], mine)"
  by (induction ts) (auto simp: has_key_def)

section \<open>What the log names\<close>

definition signedFor :: "signingLog \<Rightarrow> string \<Rightarrow> loggedTx list" where
  "signedFor l key = (case lookup (Actions l) key of None \<Rightarrow> [] | Some a \<Rightarrow> Txs a)"

lemma signedFor_Some: "t \<in> set (signedFor l key) \<longleftrightarrow> (\<exists>a. lookup (Actions l) key = Some a \<and> t \<in> set (Txs a))"
  by (cases "lookup (Actions l) key") (simp_all add: signedFor_def)

lemma txids_signedFor:
  assumes "distinct (map fst (Actions l))"
  shows "i \<in> set (txids l) \<longleftrightarrow> (\<exists>key. \<exists>t \<in> set (signedFor l key). i = Txid t)"
proof
  assume "i \<in> set (txids l)"
  then obtain k a t where "(k, a) \<in> set (Actions l)" "t \<in> set (Txs a)" "i = Txid t" by (auto simp: txids_def)
  then show "\<exists>key. \<exists>t \<in> set (signedFor l key). i = Txid t" using lookup_member [OF assms] signedFor_Some by blast
next
  assume "\<exists>key. \<exists>t \<in> set (signedFor l key). i = Txid t"
  then obtain k a t where "lookup (Actions l) k = Some a" "t \<in> set (Txs a)" "i = Txid t" using signedFor_Some by blast
  then show "i \<in> set (txids l)" using lookup_in_set [of "Actions l" k a] by (force simp: txids_def)
qed

lemma signedFor_store:
  "signedFor (l\<lparr>Actions := store (Actions l) key a\<rparr>) k = (if k = key then Txs a else signedFor l k)"
  by (simp add: signedFor_def)

lemma signedFor_get_or: "Txs a0 = [] \<Longrightarrow> Txs (get_or (Actions l) key a0) = signedFor l key"
  by (simp add: signedFor_def get_or_def split: option.split)

lemma signedFor_cong: "Actions l = Actions l' \<Longrightarrow> signedFor l = signedFor l'"
  by (simp add: signedFor_def fun_eq_iff)

definition adoptedTx :: "hashes \<Rightarrow> string \<Rightarrow> chainTx \<Rightarrow> loggedTx" where
  "adoptedTx H txid t = \<lparr>Txid = Hash_String (unsignedHash H (t_tx t)), Signed = [txid], Inputs = inputTexts (t_tx t), Chain = [], Fee = 0\<rparr>"

lemma signedFor_adoptTx:
  "signedFor (adoptTx H l (txid, key, t)) k = (if k = key then signedFor l key @ [adoptedTx H txid t] else signedFor l k)"
  by (simp add: adoptTx_def Let_def signedFor_store signedFor_get_or adoptedTx_def)

lemma adoptTx_distinct: "distinct (map fst (Actions l)) \<Longrightarrow> distinct (map fst (Actions (adoptTx H l x)))"
  by (cases x) (simp add: adoptTx_def Let_def distinct_store)

lemma adoptTxs:
  "distinct (map fst (Actions l)) \<Longrightarrow> distinct (map fst (Actions (foldl (adoptTx H) l xs))) \<and>
   (\<forall>k. set (signedFor l k) \<subseteq> set (signedFor (foldl (adoptTx H) l xs) k)) \<and>
   (\<forall>(txid, key, t) \<in> set xs. adoptedTx H txid t \<in> set (signedFor (foldl (adoptTx H) l xs) key))"
proof (induction xs arbitrary: l)
  case (Cons x xs)
  obtain txid key t where x: "x = (txid, key, t)" by (cases x)
  note IH = Cons.IH [OF adoptTx_distinct [OF Cons.prems], of H x]
  have "set (signedFor l k) \<subseteq> set (signedFor (adoptTx H l x) k)" "adoptedTx H txid t \<in> set (signedFor (adoptTx H l x) key)" for k
    by (auto simp: x signedFor_adoptTx)
  with IH show ?case by (auto simp: x)
qed simp

section \<open>What adopting leaves\<close>

lemma fillAnchors_Inr:
  assumes "fillAnchors H s c = (Inr t, c')"
  shows "\<exists>anchors. c' = c\<lparr>c_log := (c_log c)\<lparr>Anchors := anchors\<rparr>\<rparr>"
  using assms by (auto simp: fillAnchors_def setLog_def)

lemma adoptCutover_Inr:
  assumes "adoptCutover H E e s c = (Inr (), c')"
  shows "Actions (c_log c') = Actions (c_log c)" "c_mine c' = c_mine c" "c_bridge c' = c_bridge c" "c_key c' = c_key c" "History (c_log c') = []"
proof -
  obtain t c1 where f: "fillAnchors H s c = (Inr t, c1)" "startCutover H E e s (c1\<lparr>c_log := (c_log c1)\<lparr>History := []\<rparr>\<rparr>) = (Inr (), c')"
    using assms by (auto simp: adoptCutover_def setLog_def)
  obtain anchors where c1: "c1 = c\<lparr>c_log := (c_log c)\<lparr>Anchors := anchors\<rparr>\<rparr>" using fillAnchors_Inr [OF f(1)] ..
  obtain coins where "c' = (c1\<lparr>c_log := (c_log c1)\<lparr>History := []\<rparr>\<rparr>)
      \<lparr>c_log := beginCutover (e_now e) coins ((c_log c1)\<lparr>History := []\<rparr>)\<rparr>"
    using startCutover_Inr [OF f(2)] by (metis cosigner.select_convs(3) cosigner.surjective cosigner.update_convs(3))
  then show "Actions (c_log c') = Actions (c_log c)" "c_mine c' = c_mine c" "c_bridge c' = c_bridge c" "c_key c' = c_key c" "History (c_log c') = []"
    by (simp_all add: c1)
qed

lemma txsByID_lookup: "lookup (txsByID H txs) txid = Some t \<Longrightarrow> t \<in> set txs \<and> Hash_String (TxHash H (t_tx t)) = txid"
  unfolding txsByID_def by (induction txs rule: rev_induct) (auto split: if_splits)

lemma collect_adoptable:
  assumes "collect (map (adoptable byID) missing) = Inr found" "txid \<in> set missing"
  shows "\<exists>key t. (txid, key, t) \<in> set found \<and> lookup byID txid = Some t \<and> 0 < t_confirmations t"
proof -
  have "adoptable byID txid \<in> set (map (adoptable byID) missing)" using assms(2) by simp
  then obtain x where "x \<in> set found" "adoptable byID txid = Inr x" using assms(1) unfolding collect_Inr by auto
  then show ?thesis by (auto simp: adoptable_def split: option.splits if_splits)
qed


text \<open>Two listed transactions with one identifier are one transaction.\<close>

definition oneTxPerID :: "hashes \<Rightarrow> chainTx list \<Rightarrow> bool" where
  "oneTxPerID H txs \<longleftrightarrow> list_all (\<lambda>t. list_all (\<lambda>u. TxHash H (t_tx t) = TxHash H (t_tx u) \<longrightarrow> t_tx t = t_tx u) txs) txs"

lemma adopt_cases:
  assumes "adopt H E e s c = (Inr missing, c')"
  obtains mine c1 found where
    "unloggedLoop H E (signers (c_bridge c)) (pubOf E (c_key c)) (txids (c_log c)) (vmTxs s @ dogeTxs s) (c_mine c) = (missing, mine)"
    "collect (map (adoptable (txsByID H (vmTxs s @ dogeTxs s))) missing) = Inr found"
    "c1 = c\<lparr>c_mine := mine, c_log := foldl (adoptTx H) (c_log c) found\<rparr>" "adoptCutover H E e s c1 = (Inr (), c')"
proof -
  obtain ms mine where u: "unloggedLoop H E (signers (c_bridge c)) (pubOf E (c_key c)) (txids (c_log c)) (vmTxs s @ dogeTxs s) (c_mine c) = (ms, mine)"
    by (cases "unloggedLoop H E (signers (c_bridge c)) (pubOf E (c_key c)) (txids (c_log c)) (vmTxs s @ dogeTxs s) (c_mine c)")
  show thesis
  proof (cases "ms = []")
    case True
    then have "missing = []" "adoptCutover H E e s (c\<lparr>c_mine := mine\<rparr>) = (Inr (), c')"
      using assms by (auto simp: adopt_def unlogged_def u)
    then show ?thesis using that [of mine "[]" "c\<lparr>c_mine := mine\<rparr>"] u True by simp
  next
    case False
    then show ?thesis using that assms u by (auto simp: adopt_def unlogged_def setLog_def)
  qed
qed

lemma adopt_found:
  assumes "unloggedLoop H E (signers (c_bridge c)) (pubOf E (c_key c)) (txids (c_log c)) (vmTxs s @ dogeTxs s) (c_mine c) = ([txid], mine)"
    "adoptable (txsByID H (vmTxs s @ dogeTxs s)) txid = Inr x" "tips H s = Inr []" "inSet E c" "e_writes e"
    "cutoverCoins H s ((adoptTx H (c_log c) x)\<lparr>History := []\<rparr>) = Inr coins"
  shows "fst (adopt H E e s c) = Inr [txid]"
proof -
  have "inSet E (c\<lparr>c_log := l, c_mine := m\<rparr>)" "inSet E (c\<lparr>c_mine := m, c_log := l\<rparr>)" for l m using assms(4) by (simp_all add: inSet_def)
  then show ?thesis
    using assms by (simp add: adopt_def unlogged_def effect_run setLog_def adoptCutover_def fillAnchors_def startCutover_run)
qed

text \<open>Once the missing transactions are adopted, the cache marks none as signed that the log lacks.\<close>

lemma adopted_signed:
  assumes "unloggedLoop H E ss pub (txids l) txs m = (missing, mine)" "collect (map (adoptable (txsByID H txs)) missing) = Inr found"
    "distinct (map fst (Actions l))" "oneTxPerID H txs" "t \<in> set txs" "Actions l' = Actions (foldl (adoptTx H) l found)"
  shows "\<exists>b. lookup mine (TxHash H (t_tx t)) = Some b \<and> (b \<longrightarrow> Hash_String (unsignedHash H (t_tx t)) \<in> set (txids l'))"
proof -
  note ad = adoptTxs [OF assms(3), of H found]
  have sf: "signedFor l' = signedFor (foldl (adoptTx H) l found)" by (rule signedFor_cong [OF assms(6)])
  have d: "distinct (map fst (Actions l'))" using ad by (simp add: assms(6))
  let ?uid = "Hash_String (unsignedHash H (t_tx t))" and ?id = "Hash_String (TxHash H (t_tx t))"
  obtain b where b: "lookup mine (TxHash H (t_tx t)) = Some b" "b \<and> ?uid \<notin> set (txids l) \<longrightarrow> ?id \<in> set missing"
    using unloggedLoop_mine [OF assms(1)] assms(5) by blast
  have "?uid \<in> set (txids l')" if "b"
  proof (cases "?uid \<in> set (txids l)")
    case True
    then obtain key x where "x \<in> set (signedFor l key)" "?uid = Txid x" using txids_signedFor [OF assms(3)] by blast
    then show ?thesis using ad txids_signedFor [OF d] sf by (metis subsetD)
  next
    case False
    with b \<open>b\<close> obtain key w where w: "(?id, key, w) \<in> set found" "lookup (txsByID H txs) ?id = Some w"
      using collect_adoptable [OF assms(2)] by blast
    then have "w \<in> set txs" "TxHash H (t_tx w) = TxHash H (t_tx t)" using txsByID_lookup [OF w(2)] by simp_all
    then have "t_tx w = t_tx t" using assms(4,5) by (auto simp: oneTxPerID_def list_all_iff)
    then have "?uid = Txid (adoptedTx H ?id w)" by (simp add: adoptedTx_def)
    moreover have "adoptedTx H ?id w \<in> set (signedFor l' key)" using ad w(1) sf by auto
    ultimately show ?thesis using txids_signedFor [OF d] by blast
  qed
  with b show ?thesis by blast
qed

section \<open>Samples\<close>

text \<open>A signer with an empty log whose node lists a release of the reserve that it and another signed.\<close>

definition plainECDSA :: ecdsa where
  "plainECDSA = \<lparr>pubOf = (\<lambda>key. key), signHash = (\<lambda>key hash. key @ [7]), verifyHash = (\<lambda>pub hash sig. sig = pub @ [7])\<rparr>"

definition sampleSigned :: chainTx where
  "sampleSigned = \<lparr>t_tx = \<lparr>Version = 1, TxIn = [NewTxIn sampleCoin ([0, 3, 3, 7, 1, 3, 4, 7, 1, 9] @ redeemScript sampleSigners) []],
     TxOut = [NewTxOut 700000000 [0x51], NewTxOut 0 (OP_RETURN # pushBytes (encodeRelease otherCoin))], LockTime = 0\<rparr>,
     t_confirmations = 9, t_time = 900\<rparr>"

definition sampleLists :: pegState where
  "sampleLists = emptyState\<lparr>vmTxs := [sampleFunding, sampleSigned]\<rparr>"

definition sampleAdopt :: "(cerr + string list) \<times> cosigner" where
  "sampleAdopt = adopt sampleHashes plainECDSA sampleEnv sampleLists (sampleSigner\<lparr>c_log := createSigningLog\<rparr>)"

definition sampleID :: string where
  "sampleID = Hash_String (TxHash sampleHashes (t_tx sampleSigned))"

lemma sample_found:
  "unloggedLoop sampleHashes plainECDSA sampleSigners [3] [] [sampleFunding, sampleSigned] []
     = ([sampleID], [(TxHash sampleHashes (t_tx sampleFunding), False), (TxHash sampleHashes (t_tx sampleSigned), True)])"
  "adoptable (txsByID sampleHashes [sampleFunding, sampleSigned]) sampleID = Inr (sampleID, actionRelease @ '':'' @ OutPoint_String otherCoin, sampleSigned)"
  "is_ok (cutoverCoins sampleHashes sampleLists ((adoptTx sampleHashes createSigningLog
     (sampleID, actionRelease @ '':'' @ OutPoint_String otherCoin, sampleSigned))\<lparr>History := []\<rparr>))"
  "tips sampleHashes sampleLists = Inr []" "oneTxPerID sampleHashes (vmTxs sampleLists @ dogeTxs sampleLists)"
  by code_simp+

lemma sample_adopt: "fst sampleAdopt = Inr [sampleID]"
proof -
  let ?c = "sampleSigner\<lparr>c_log := createSigningLog\<rparr>"
  have "signers (c_bridge ?c) = sampleSigners" "pubOf plainECDSA (c_key ?c) = [3]" "txids (c_log ?c) = []" "c_mine ?c = []" "c_log ?c = createSigningLog"
    "vmTxs sampleLists @ dogeTxs sampleLists = [sampleFunding, sampleSigned]" "e_writes sampleEnv"
    by (simp_all add: sampleSigner_def sampleBridge_def plainECDSA_def txids_def createSigningLog_def sampleLists_def emptyState_def sampleEnv_def)
  moreover have "inSet plainECDSA ?c" by code_simp
  moreover obtain coins where "cutoverCoins sampleHashes sampleLists ((adoptTx sampleHashes createSigningLog
      (sampleID, actionRelease @ '':'' @ OutPoint_String otherCoin, sampleSigned))\<lparr>History := []\<rparr>) = Inr coins"
    using sample_found(3) by (auto simp: is_ok_iff)
  ultimately show ?thesis unfolding sampleAdopt_def using sample_found(1,2,4)
    by (intro adopt_found) simp_all
qed

text \<open>A node that takes no new address to watch, and a destination not registered yet.\<close>

definition sampleUnwatched :: env where
  "sampleUnwatched = sampleEnv\<lparr>e_import := Some (\<lambda>txids. sampleDoge), e_watches := False\<rparr>"

section \<open>Properties\<close>




end
