(* ===== verification/Check.thy ===== *)
theory Check
  imports Cosigner
begin

text \<open>
  What a signer signs: \<open>check\<close> and \<open>handleSign\<close> of \<open>cmd/dogevm/cosign.go\<close>.  Each kind of action rebuilds its
  transaction from the signer's own view of the chains; the proposal is signed only when it is that transaction.
\<close>

section \<open>Approvals\<close>

fun fields :: "string \<Rightarrow> string list" where
  "fields [] = []"
| "fields (ch # cs) = (if isSpace ch then fields cs
     else case cs of
       [] \<Rightarrow> [[ch]]
     | d # ds \<Rightarrow> if isSpace d then [ch] # fields cs
         else (case fields cs of [] \<Rightarrow> [[ch]] | w # ws \<Rightarrow> (ch # w) # ws))"

text \<open>The lines of the approvals file; none without a file.\<close>

definition approvalLines :: "env \<Rightarrow> cerr + string list list" where
  "approvalLines e = (case e_approvals e of
     None \<Rightarrow> Inl NotApproved
   | Some f \<Rightarrow> (case f of
       Contents raw \<Rightarrow> Inr (map fields (split_at (char_of (10 :: nat)) raw))
     | _ \<Rightarrow> Inl (Failed ReadFailed)))"

definition forceApproved :: "env \<Rightarrow> OutPoint \<Rightarrow> bool" where
  "forceApproved e op = (case approvalLines e of
     Inl x \<Rightarrow> False
   | Inr ls \<Rightarrow> list_ex (\<lambda>f. length f = 3 \<and> f ! 0 = OutPoint_String op \<and> f ! 2 = ''force'') ls)"

definition refundListed :: "env \<Rightarrow> OutPoint \<Rightarrow> bool" where
  "refundListed e op = (case approvalLines e of
     Inl x \<Rightarrow> False
   | Inr ls \<Rightarrow> list_ex (\<lambda>f. 2 \<le> length f \<and> f ! 0 = OutPoint_String op) ls)"

definition refundApproved :: "env \<Rightarrow> OutPoint \<Rightarrow> destination \<Rightarrow> cerr + bool" where
  "refundApproved e op dest =
     bindr (approvalLines e) (\<lambda>ls.
     case List.find (\<lambda>f. 2 \<le> length f \<and> length f \<le> 3 \<and> take 1 (f ! 0) \<noteq> ''#'' \<and> f ! 0 = OutPoint_String op) ls of
       None \<Rightarrow> Inl NotApproved
     | Some f \<Rightarrow>
         if length f = 3 \<and> f ! 2 \<noteq> ''force'' then Inl NotApproved
         else case e_address e (f ! 1) of
           None \<Rightarrow> Inl BadDest
         | Some approved \<Rightarrow> if approved = dest then Inr (length f = 3) else Inl NotApproved)"

section \<open>Parts of the checks\<close>

definition spendsAnchor :: "MsgTx \<Rightarrow> utxo option \<Rightarrow> cerr + unit" where
  "spendsAnchor tx anchor = (case anchor of
     None \<Rightarrow> Inl NotAnchor
   | Some a \<Rightarrow> guardr (TxIn tx \<noteq> [] \<and> PreviousOutPoint (hd (TxIn tx)) = u_outPoint a) NotAnchor)"

fun unsignedInputs :: "OutPoint list \<Rightarrow> TxIn list \<Rightarrow> cerr + unit" where
  "unsignedInputs seen [] = Inr ()"
| "unsignedInputs seen (ti # tis) =
     (if SignatureScript ti \<noteq> [] \<or> Witness ti \<noteq> [] then Inl NotUnsigned
      else if PreviousOutPoint ti \<in> set seen then Inl SpendsTwice
      else unsignedInputs (PreviousOutPoint ti # seen) tis)"

fun registerAll :: "hashes \<Rightarrow> env \<Rightarrow> string list \<Rightarrow> unit signer" where
  "registerAll H e [] = retm ()"
| "registerAll H e (text # rest) = bindm (handleRegister H e text) (\<lambda>_. registerAll H e rest)"

text \<open>The inputs of a proposal among coins the signer knows.\<close>

definition pick :: "MsgTx \<Rightarrow> utxo list \<Rightarrow> cerr + utxo list \<times> int" where
  "pick tx available =
     (let byOutPoint = foldl (\<lambda>m u. store m (u_outPoint u) u) [] available in
      bindr (collect (map (\<lambda>ti. case lookup byOutPoint (PreviousOutPoint ti) of None \<Rightarrow> Inl UnknownInput | Some u \<Rightarrow> Inr u) (TxIn tx)))
        (\<lambda>inputs. Inr (inputs, valueOf inputs)))"

definition coinsOf :: "pegState \<Rightarrow> MsgTx \<Rightarrow> utxo list" where
  "coinsOf s tx = List.map_filter (\<lambda>ti. lookup (pendingCoins s) (PreviousOutPoint ti)) (TxIn tx)"

definition unconfirmedFor :: "pegState \<Rightarrow> bytes \<Rightarrow> (chainTx \<times> int) option" where
  "unconfirmedFor s data = foldl (\<lambda>best (txid, t).
     case opReturnData (t_tx t) of
       None \<Rightarrow> best
     | Some (tag, payload) \<Rightarrow>
         if tag @ payload \<noteq> data then best
         else let fee = valueOf (coinsOf s (t_tx t)) - paidOut (t_tx t) in
           if fee > (case best of None \<Rightarrow> - 1 | Some (b, f) \<Rightarrow> f) then Some (t, fee) else best) None (unconfirmed s)"

text \<open>What a signer promised to shallow deposits that are not credited yet.\<close>

definition promisedReleases :: "bridge \<Rightarrow> pegState \<Rightarrow> signingLog \<Rightarrow> OutPoint \<Rightarrow> int" where
  "promisedReleases b s l op = foldl (\<lambda>n (key, a).
     let p = actionRelease @ '':''; other = drop (length p) key in
     if take (length p) key \<noteq> p \<or> other = OutPoint_String op then n
     else case parseOutPoint other of
       None \<Rightarrow> n
     | Some oop \<Rightarrow>
         if has_key (released s) oop then n
         else case findDeposit (deposits s) oop of
           None \<Rightarrow> n
         | Some od \<Rightarrow> if d_confirmations od < depositConfirmations b then n + LValue a else n) 0 (Actions l)"

text \<open>What a check gives: the transaction to sign, its redeem scripts, the value moved, and coins still unspent.\<close>

type_synonym checked = "MsgTx \<times> bytes list \<times> int \<times> OutPoint list"

definition failed :: "perr + 'a \<Rightarrow> cerr + 'a" where
  "failed r = (case r of Inl x \<Rightarrow> Inl (Failed x) | Inr a \<Rightarrow> Inr a)"

definition findOr :: "cerr \<Rightarrow> 'a option \<Rightarrow> cerr + 'a" where
  "findOr x r = (case r of None \<Rightarrow> Inl x | Some a \<Rightarrow> Inr a)"

section \<open>Releases\<close>

definition checkRelease :: "hashes \<Rightarrow> env \<Rightarrow> cosigner \<Rightarrow> pegState \<Rightarrow> signRequest \<Rightarrow> MsgTx \<Rightarrow> cerr + checked" where
  "checkRelease H e c s req tx =
     (let b = c_bridge c in
     bindr (guardr (q_chain req = chainDogecoinVM) WrongChain) (\<lambda>_.
     bindr (findOr BadTarget (parseOutPoint (Deposit (q_action req)))) (\<lambda>op.
     bindr (guardr (\<not> has_key (released s) op) AlreadyCredited) (\<lambda>_.
     bindr (guardr (\<not> has_key (refunded s) op) AlreadyRefunded) (\<lambda>_.
     bindr (guardr (\<not> (isCancelled s op \<or> log_has (c_log c) (actionCancel @ '':'' @ OutPoint_String op))) WasCancelled) (\<lambda>_.
     bindr (guardr (\<not> log_has (c_log c) (actionRefund @ '':'' @ OutPoint_String op)) SignedRefund) (\<lambda>_.
     bindr (findOr NoDeposit (findDeposit (deposits s) op)) (\<lambda>d.
     bindr (guardr (confirmationsFor b (d_value d) \<le> d_confirmations d) TooFewConfirmations) (\<lambda>_.
     bindr (guardr (\<not> (maxCirculating b > 0 \<and> reserveCreated s - reserveUnspent s + d_value d > maxCirculating b)) OverCap) (\<lambda>_.
     bindr (failed (shallowRoom b s d (promisedReleases b s (c_log c) op))) (\<lambda>_.
     bindr (spendsAnchor tx (reserveAnchor s)) (\<lambda>_.
     bindr (pick tx (reserveUTXOs s)) (\<lambda>(inputs, tot).
     bindr (guardr (d_value d + pegDust \<le> tot) InputsDontCover) (\<lambda>_.
     bindr (failed (buildRelease H b inputs tot d)) (\<lambda>want.
     bindr (failed (unspent (e_vm e) [signers_pkScript H (signers b)] 0)) (\<lambda>coins.
     Inr (want, map (\<lambda>u. redeemScript (signers b)) inputs, d_value d, map u_outPoint coins)))))))))))))))))"

section \<open>Cancellations\<close>

definition cancelAllowed :: "env \<Rightarrow> pegState \<Rightarrow> OutPoint \<Rightarrow> cerr + unit" where
  "cancelAllowed e s op = (case findDeposit (deposits s) op of
     Some d \<Rightarrow> guardr (forceApproved e op) NotForced
   | None \<Rightarrow> (case findDeposit (held s) op of
       Some d \<Rightarrow> if d_hasDest d then guardr (refundListed e op) NotApproved else Inl NotCancellable
     | None \<Rightarrow> Inl NotCancellable))"

text \<open>The part of a cancellation's check that only looks.\<close>

definition checkCancel :: "hashes \<Rightarrow> env \<Rightarrow> cosigner \<Rightarrow> pegState \<Rightarrow> chainEvidence \<Rightarrow> int \<Rightarrow> signRequest \<Rightarrow> MsgTx \<Rightarrow> cerr + checked" where
  "checkCancel H e c s ev unseen req tx =
     (let b = c_bridge c in
     bindr (guardr (q_chain req = chainDogecoinVM) WrongChain) (\<lambda>_.
     bindr (findOr BadTarget (parseOutPoint (Deposit (q_action req)))) (\<lambda>op.
     bindr (guardr (\<not> has_key (released s) op) AlreadyCredited) (\<lambda>_.
     bindr (guardr (\<not> has_key (refunded s) op) AlreadyRefunded) (\<lambda>_.
     bindr (guardr (\<not> isCancelled s op) AlreadyCancelled) (\<lambda>_.
     bindr (findOr NoReserveAnchor (reserveAnchor s)) (\<lambda>anchor.
     bindr (guardr (releasesDeadOrConflicting (c_log c) ev op (u_outPoint anchor)) ReleaseCouldConfirm) (\<lambda>_.
     bindr (cancelAllowed e s op) (\<lambda>_.
     bindr (spendsAnchor tx (reserveAnchor s)) (\<lambda>_.
     bindr (pick tx (reserveUTXOs s)) (\<lambda>(inputs, tot).
     bindr (failed (buildCancel H b inputs op)) (\<lambda>want.
     bindr (surplusSpendWait H s (c_log c)) (\<lambda>_.
     bindr (feeRoom b (audit_of s) (vmFee b) unseen) (\<lambda>_.
     Inr (want, map (\<lambda>u. redeemScript (signers b)) inputs, 0, map u_outPoint inputs)))))))))))))))"

section \<open>Payouts and refunds\<close>

definition checkPegOut :: "pegState \<Rightarrow> signRequest \<Rightarrow> cerr + int \<times> destination \<times> bytes" where
  "checkPegOut s req =
     bindr (findOr BadTarget (NewHashFromStr (PegOut (q_action req)))) (\<lambda>txid.
     bindr (guardr (case lookup (paid s) txid of None \<Rightarrow> True | Some payment \<Rightarrow> q_fee req > 0 \<and> isUnconfirmed s payment) AlreadyPaid) (\<lambda>_.
     bindr (findOr NoPegOut (findPegOut (pegOuts s) txid)) (\<lambda>p.
     Inr (p_value p, p_dest p, encodePayment (p_txid p)))))"

definition checkRefund :: "env \<Rightarrow> cosigner \<Rightarrow> pegState \<Rightarrow> chainEvidence \<Rightarrow> signRequest \<Rightarrow> cerr + int \<times> destination \<times> bytes" where
  "checkRefund e c s ev req =
     bindr (findOr BadTarget (parseOutPoint (Deposit (q_action req)))) (\<lambda>op.
     bindr (guardr (case lookup (refunded s) op of None \<Rightarrow> True | Some txid \<Rightarrow> q_fee req > 0 \<and> isUnconfirmed s txid) AlreadyRefunded) (\<lambda>_.
     bindr (guardr (\<not> has_key (released s) op) AlreadyCredited) (\<lambda>_.
     bindr (parseDest (To (q_action req))) (\<lambda>dest.
     bindr (guardr (releasesDead (c_log c) ev op) SignedRelease) (\<lambda>_.
     bindr (refundApproved e op dest) (\<lambda>_.
     bindr (findOr NotHeld (findDeposit (if has_key (refunded s) op then settled s else held s) op)) (\<lambda>d.
     bindr (guardr (\<not> (d_hasDest d \<and> \<not> get_or (cancelled s) op False)) NotCancelled) (\<lambda>_.
     bindr (failed (refundable (c_bridge c) d)) (\<lambda>_.
     Inr (d_value d, dest, encodeRefund op))))))))))"

text \<open>The inputs of a payment with its fee and the coins still unspent: those of the payment it replaces, or fresh ones.\<close>

definition replacementInputs :: "bridge \<Rightarrow> pegState \<Rightarrow> signRequest \<Rightarrow> MsgTx \<Rightarrow> int \<Rightarrow> bytes \<Rightarrow> cerr + utxo list \<times> int \<times> int \<times> OutPoint list" where
  "replacementInputs b s req tx value data =
     bindr (findOr NothingToReplace (unconfirmedFor s data)) (\<lambda>(r, oldFee).
     bindr (guardr (map PreviousOutPoint (TxIn tx) = map PreviousOutPoint (TxIn (t_tx r))) NotSameInputs) (\<lambda>_.
     bindr (guardr (q_fee req = oldFee + dogeFee b) NotOneFeeMore) (\<lambda>_.
     bindr (failed (checkBumpFee b (q_fee req) oldFee value)) (\<lambda>_.
     bindr (pick tx (coinsOf s (t_tx r))) (\<lambda>(inputs, tot).
     Inr (inputs, tot, q_fee req, map u_outPoint inputs))))))"

definition freshInputs :: "bridge \<Rightarrow> pegState \<Rightarrow> MsgTx \<Rightarrow> cerr + utxo list \<times> int \<times> int \<times> OutPoint list" where
  "freshInputs b s tx =
     bindr (spendsAnchor tx (pegAnchor s)) (\<lambda>_.
     bindr (pick tx (filter (\<lambda>u. u_confirmations u > 0) (lockedUTXOs s))) (\<lambda>(inputs, tot).
     Inr (inputs, tot, dogeFee b, map u_outPoint (lockedUTXOs s))))"

definition checkPayment :: "hashes \<Rightarrow> env \<Rightarrow> cosigner \<Rightarrow> pegState \<Rightarrow> chainEvidence \<Rightarrow> signRequest \<Rightarrow> MsgTx \<Rightarrow> cerr + checked" where
  "checkPayment H e c s ev req tx =
     (let b = c_bridge c in
     bindr (guardr (q_chain req = chainDogecoin) WrongChain) (\<lambda>_.
     bindr (if Kind (q_action req) = actionPayout then checkPegOut s req else checkRefund e c s ev req) (\<lambda>(value, dest, data).
     bindr (guardr (dogeFee b < value) TooSmall) (\<lambda>_.
     bindr (if q_fee req > 0 then replacementInputs b s req tx value data else freshInputs b s tx) (\<lambda>(inputs, tot, fee, unspents).
     bindr (guardr (value \<le> tot) InputsDontCover) (\<lambda>_.
     bindr (failed (buildPayout H b inputs value dest data fee)) (\<lambda>want.
     bindr (collect (map (\<lambda>u. findOr (Failed NoRedeem) (lookup (redeemFor s) (u_pkScript u))) inputs)) (\<lambda>redeems.
     Inr (want, redeems, value, unspents)))))))))"

section \<open>Fences\<close>

definition checkFenceAction :: "hashes \<Rightarrow> env \<Rightarrow> pegState \<Rightarrow> int \<Rightarrow> string \<Rightarrow> signRequest \<Rightarrow> checked signer" where
  "checkFenceAction H e s unseen key req =
     bindm (readm id) (\<lambda>c.
     bindm (guardm (q_chain req = chainDogecoin \<or> q_chain req = chainDogecoinVM) NoSuchChain) (\<lambda>_.
     bindm (liftm (checkFence H c (e_now e) s (q_chain req))) (\<lambda>(want, redeems, fee).
     bindm (guardm (Deposit (q_action req) = OutPoint_String (PreviousOutPoint (hd (TxIn want)))) FenceNamesFirst) (\<lambda>_.
     bindm (liftm (if q_chain req = chainDogecoinVM then surplusSpendWait H s (c_log c) else Inr ())) (\<lambda>_.
     bindm (liftm (feeRoom (c_bridge c) (audit_of s) fee unseen)) (\<lambda>_.
     bindm (cutoverBudgetRoom e s key fee) (\<lambda>_.
     bindm (modifym (\<lambda>c. c\<lparr>c_fenceFee := fee\<rparr>)) (\<lambda>_.
     retm (want, redeems, 0, map PreviousOutPoint (TxIn want))))))))))"

section \<open>The whole check\<close>

definition checkAction :: "hashes \<Rightarrow> env \<Rightarrow> pegState \<Rightarrow> chainEvidence \<Rightarrow> int \<Rightarrow> string \<Rightarrow> signRequest \<Rightarrow> MsgTx \<Rightarrow> checked signer" where
  "checkAction H e s ev unseen key req tx =
     bindm (readm id) (\<lambda>c.
     if Kind (q_action req) = actionRelease then liftm (checkRelease H e c s req tx)
     else if Kind (q_action req) = actionCancel then
       bindm (liftm (checkCancel H e c s ev unseen req tx)) (\<lambda>r.
       bindm (cutoverBudgetRoom e s key (vmFee (c_bridge c))) (\<lambda>_. retm r))
     else if Kind (q_action req) = actionFence then checkFenceAction H e s unseen key req
     else if Kind (q_action req) = actionPayout \<or> Kind (q_action req) = actionRefund then liftm (checkPayment H e c s ev req tx)
     else failm UnknownAction)"

definition chainNamed :: "env \<Rightarrow> string \<Rightarrow> chain" where
  "chainNamed e name = (if name = chainDogecoin then e_doge e else e_vm e)"

text \<open>What the log has to say about the transaction.\<close>

definition checkLog :: "hashes \<Rightarrow> env \<Rightarrow> cosigner \<Rightarrow> pegState \<Rightarrow> chainEvidence \<Rightarrow> signRequest \<Rightarrow> MsgTx \<Rightarrow> int \<Rightarrow> OutPoint list \<Rightarrow> cerr + unit" where
  "checkLog H e c s ev req tx value unspents =
     bindr (action_key (q_action req)) (\<lambda>key.
     let inChain = unspentOn (chainNamed e (q_chain req)) in
     bindr (permit (c_log c) key (q_chain req) tx unspents (Some ev) inChain) (\<lambda>_.
     bindr (if Kind (q_action req) = actionFence \<and> has_key (Cutover (c_log c)) (q_chain req) then Inr ()
            else anchorMoved H (c_log c) (q_chain req) tx inChain (Some (lineFor s (q_chain req)))) (\<lambda>_.
     guardr (\<not> (c_maxDaily c > 0 \<and> \<not> log_has (c_log c) key \<and> volumeSince (c_log c) (e_now e - 24 * 3600) + value > c_maxDaily c)) OverDaily)))"

definition evidenceFor :: "hashes \<Rightarrow> env \<Rightarrow> bridge \<Rightarrow> pegState \<Rightarrow> chainEvidence" where
  "evidenceFor H e b s = (newChainEvidence H s (Some (chainNamed e)))\<lparr>deep := max (max (depositConfirmations b) (confFloor b)) 1\<rparr>"

text \<open>\<open>learnSigned\<close> writes the log when it learnt something.\<close>

definition learn :: "hashes \<Rightarrow> env \<Rightarrow> chainEvidence \<Rightarrow> unit signer" where
  "learn H e ev =
     bindm (readm c_log) (\<lambda>l.
     let l' = learnSigned H ev l in
     bindm (setLog (\<lambda>_. l')) (\<lambda>_. if l' = l then retm () else writeLog e))"

definition keyOrNone :: "action \<Rightarrow> string" where
  "keyOrNone a = (case action_key a of Inl x \<Rightarrow> [] | Inr key \<Rightarrow> key)"

text \<open>
  The chains as the signer reads them, with what an import added to its Dogecoin wallet: every later step of the
  request asks the node that has imported.
\<close>

definition readChains :: "hashes \<Rightarrow> env \<Rightarrow> signRequest \<Rightarrow> MsgTx \<Rightarrow> (pegState \<times> env) signer" where
  "readChains H e req tx =
     bindm (readm id) (\<lambda>c.
     bindm (liftm (loadWith H e (e_doge e) c)) (\<lambda>s.
     bindm (liftm (catchUp H e s req tx c)) (\<lambda>(s, doge).
     retm (s, e\<lparr>e_doge := doge\<rparr>))))"

definition passFences :: "hashes \<Rightarrow> ecdsa \<Rightarrow> env \<Rightarrow> pegState \<Rightarrow> signRequest \<Rightarrow> unit signer" where
  "passFences H E e s req =
     bindm (cosigner_fence H E e s) (\<lambda>_.
     if Kind (q_action req) = actionFence then bindm (advanceCutover H E e s) (\<lambda>_. retm ()) else cutoverGate H E e s)"

text \<open>The state with the fees the signer promised and nobody sent, and those fees; an insolvent peg signs nothing.\<close>

definition countUnseen :: "env \<Rightarrow> pegState \<Rightarrow> chainEvidence \<Rightarrow> action \<Rightarrow> (pegState \<times> int) signer" where
  "countUnseen e s ev a =
     bindm (readm c_log) (\<lambda>l.
     let unseen = unseenFees l (map u_outPoint (lockedUTXOs s @ reserveUTXOs s)) (Some ev)
           (Some (\<lambda>name op. says (unspentOn (chainNamed e name)) op)) (keyOrNone a);
         s = s\<lparr>pendingFees := pendingFees s + unseen\<rparr> in
     bindm (guardm (solvent (audit_of s)) Insolvent) (\<lambda>_. retm (s, unseen)))"

definition check :: "hashes \<Rightarrow> ecdsa \<Rightarrow> env \<Rightarrow> signRequest \<Rightarrow> (MsgTx \<times> bytes list \<times> int) signer" where
  "check H E e req =
     bindm (guardm (\<not> (paused e \<and> Kind (q_action req) \<noteq> actionFence)) Paused) (\<lambda>_.
     bindm (liftm (case decodeTx (q_tx req) of Inl x \<Rightarrow> Inl BadTx | Inr tx \<Rightarrow> Inr tx)) (\<lambda>tx.
     bindm (liftm (unsignedInputs [] (TxIn tx))) (\<lambda>_.
     bindm (registerAll H e (q_register req)) (\<lambda>_.
     bindm (readChains H e req tx) (\<lambda>(s, e).
     bindm (passFences H E e s req) (\<lambda>_.
     bindm (readm c_bridge) (\<lambda>b.
     let ev = evidenceFor H e b s in
     bindm (learn H e ev) (\<lambda>_.
     bindm (countUnseen e s ev (q_action req)) (\<lambda>(s, unseen).
     bindm (checkAction H e s ev unseen (keyOrNone (q_action req)) req tx) (\<lambda>(want, redeems, value, unspents).
     bindm (guardm (encodeTx want = encodeTx tx) NotRebuilt) (\<lambda>_.
     bindm (readm id) (\<lambda>c.
     bindm (liftm (checkLog H e c s ev req tx value unspents)) (\<lambda>_.
     retm (tx, redeems, value))))))))))))))"

section \<open>Signing\<close>

definition feeFor :: "cosigner \<Rightarrow> action \<Rightarrow> int" where
  "feeFor c a = (if Kind a = actionCancel then vmFee (c_bridge c) else if Kind a = actionFence then c_fenceFee c else 0)"

definition handleSign :: "hashes \<Rightarrow> ecdsa \<Rightarrow> env \<Rightarrow> signRequest \<Rightarrow> (bytes \<times> string list) signer" where
  "handleSign H E e req =
     bindm (liftm (action_key (q_action req))) (\<lambda>key.
     bindm (check H E e req) (\<lambda>(tx, redeems, value).
     bindm (readm id) (\<lambda>c.
     bindm (liftm (failed (signInputs H E tx redeems (c_key c)))) (\<lambda>sigs.
     bindm (setLog (log_record H (e_now e) key (q_chain req) tx value (feeFor c (q_action req)))) (\<lambda>_.
     bindm (writeLog e) (\<lambda>_.
     retm (pubOf E (c_key c), map hexEncode sigs)))))))"

record status =
  s_history :: string
  s_epoch :: int
  s_left :: "(string, string list) gomap"
  s_quarantined :: string
  s_publicKey :: string
  s_solvent :: bool
  s_locked :: string
  s_circulating :: string
  s_signedToday :: string

definition handleStatus :: "hashes \<Rightarrow> ecdsa \<Rightarrow> env \<Rightarrow> status signer" where
  "handleStatus H E e =
     bindm (readm id) (\<lambda>c.
     bindm (liftm (loadWith H e (e_doge e) c)) (\<lambda>s.
     bindm (if quarantined c = [] then bindm (advanceCutover H E e s) (\<lambda>_. retm ()) else retm ()) (\<lambda>_.
     readm (\<lambda>c. let a = audit_of s; l = c_log c in
       \<lparr>s_history = History l, s_epoch = CutoverEpoch l, s_left = cutoverLeft H s l, s_quarantined = quarantined c,
        s_publicKey = hexEncode (pubOf E (c_key c)), s_solvent = solvent a, s_locked = formatDoge (Locked a),
        s_circulating = formatDoge (Circulating a), s_signedToday = formatDoge (volumeSince l (e_now e - 24 * 3600))\<rparr>))))"

section \<open>What a request leaves alone\<close>

text \<open>A logged transaction but for the identifiers learnt of it, what a log holds of them, and what only signing changes.\<close>

definition core :: "loggedTx \<Rightarrow> string \<times> string list \<times> string \<times> int" where
  "core t = (Txid t, Inputs t, Chain t, Fee t)"

type_synonym logDigest = "(string \<times> int \<times> int \<times> (string \<times> string list \<times> string \<times> int) list) list"

definition digest :: "signingLog \<Rightarrow> logDigest" where
  "digest l = map (\<lambda>(k, a). (k, LValue a, First a, map core (Txs a))) (Actions l)"

definition fixed :: "cosigner \<Rightarrow> bridge \<times> bytes \<times> logDigest" where
  "fixed c = (c_bridge c, c_key c, digest (c_log c))"

lemma digest_cong: "Actions l = Actions l' \<Longrightarrow> digest l = digest l'"
  by (simp add: digest_def)

lemma core_learnTx: "core (learnTx H ev t) = core t"
proof -
  have "core (foldl (\<lambda>t (chn, byID). case lookup byID (Txid t) of None \<Rightarrow> t
      | Some lt \<Rightarrow> let txid = Hash_String (TxHash H (t_tx lt)) in
          if txid \<in> set (Signed t) then t else t\<lparr>Signed := Signed t @ [txid]\<rparr>) t ls) = core t" for ls
    by (induction ls arbitrary: t) (auto simp: core_def Let_def split: option.split)
  then show ?thesis by (simp add: learnTx_def)
qed

lemma digest_learnSigned [simp]: "digest (learnSigned H ev l) = digest l"
  by (simp add: digest_def learnSigned_def core_learnTx comp_def case_prod_beta)

lemma keeps_fixed_setLog: "(\<And>l. Actions (f l) = Actions l) \<Longrightarrow> keeps (\<lambda>c. fixed c = D) (setLog f)"
  unfolding setLog_def by (rule keeps_modifym) (simp add: fixed_def digest_def)

lemma keeps_fixed_writeLog [peg_inv]: "keeps (\<lambda>c. fixed c = D) (writeLog e)"
  unfolding writeLog_def by (intro peg_inv)

lemma keeps_fixed_register [peg_inv]: "keeps (\<lambda>c. fixed c = D) (register H e d)"
  unfolding register_def registerDeposit_def registry_add_def registry_has_def
  by (intro peg_inv keeps_modifym) (simp_all add: fixed_def)

lemma keeps_fixed_handleRegister [peg_inv]: "keeps (\<lambda>c. fixed c = D) (handleRegister H e text)"
  unfolding handleRegister_def by (intro peg_inv)

lemma keeps_fixed_registerAll [peg_inv]: "keeps (\<lambda>c. fixed c = D) (registerAll H e texts)"
  by (induction texts) (simp_all add: peg_inv)

lemma keeps_fixed_startCutover [peg_inv]: "keeps (\<lambda>c. fixed c = D) (startCutover H E e s)"
  unfolding startCutover_def by (intro peg_inv keeps_fixed_setLog) simp

lemma keeps_fixed_advanceCutover [peg_inv]: "keeps (\<lambda>c. fixed c = D) (advanceCutover H E e s)"
  unfolding advanceCutover_def by (intro peg_inv keeps_fixed_setLog) simp_all

lemma keeps_fixed_cutoverGate [peg_inv]: "keeps (\<lambda>c. fixed c = D) (cutoverGate H E e s)"
  unfolding cutoverGate_def by (intro peg_inv)

lemma keeps_fixed_cosigner_fence [peg_inv]: "keeps (\<lambda>c. fixed c = D) (cosigner_fence H E e s)"
proof -
  have "keeps (\<lambda>c. fixed c = D) (unlogged H E s)" by (simp add: keeps_def unlogged_def fixed_def case_prod_beta)
  moreover have "keeps (\<lambda>c. fixed c = D) (quarantine e reason)" for reason
    unfolding quarantine_def by (intro peg_inv keeps_modifym) (simp add: fixed_def)
  ultimately show ?thesis unfolding cosigner_fence_def by (intro peg_inv)
qed

lemma keeps_fixed_learn [peg_inv]: "keeps (\<lambda>c. fixed c = D) (learn H e ev)"
  by (simp add: keeps_def learn_def setLog_def writeLog_def effect_run Let_def fixed_def)

lemma keeps_fixed_budget [peg_inv]: "keeps (\<lambda>c. fixed c = D) (cutoverBudgetRoom e s key fee)"
  by (simp add: keeps_def cutoverBudgetRoom_def setLog_def writeLog_def effect_run Let_def fixed_def case_prod_beta
      digest_cong [OF addFenceCapital_keeps(1)])

lemma keeps_fixed_checkAction [peg_inv]: "keeps (\<lambda>c. fixed c = D) (checkAction H e s ev unseen key req tx)"
  unfolding checkAction_def checkFenceAction_def by (intro peg_inv keeps_modifym) (simp_all add: fixed_def)

lemma keeps_fixed_parts [peg_inv]:
  "keeps (\<lambda>c. fixed c = D) (readChains H e req tx)" "keeps (\<lambda>c. fixed c = D) (passFences H E e s req)"
  "keeps (\<lambda>c. fixed c = D) (countUnseen e s ev a)"
  unfolding readChains_def passFences_def countUnseen_def by (intro peg_inv)+

lemma keeps_fixed_check: "keeps (\<lambda>c. fixed c = D) (check H E e req)"
  unfolding check_def by (intro peg_inv)

lemma keeps_fixed_handleStatus: "keeps (\<lambda>c. fixed c = D) (handleStatus H E e)"
  unfolding handleStatus_def by (intro peg_inv)

lemma fixedD: "keeps (\<lambda>c. fixed c = fixed c0) m \<Longrightarrow> m c0 = (r, c') \<Longrightarrow> fixed c' = fixed c0"
  by (erule keepsD) simp_all

text \<open>Nothing a request does clears the quarantine marker.\<close>

lemma keeps_marker_register: "keeps (\<lambda>c. c_marker c = m) (register H e d)"
  unfolding register_def registerDeposit_def registry_add_def registry_has_def
  by (intro peg_inv keeps_modifym) simp_all

lemma keeps_marker_registerAll: "keeps (\<lambda>c. c_marker c = m) (registerAll H e texts)"
  by (induction texts) (simp_all add: peg_inv handleRegister_def keeps_marker_register)

section \<open>What a passed check established\<close>

lemma failed_Inr [simp]: "failed r = Inr a \<longleftrightarrow> r = Inr a"
  by (cases r) (simp_all add: failed_def)

lemma findOr_Inr [simp]: "findOr x r = Inr a \<longleftrightarrow> r = Some a"
  by (cases r) (simp_all add: findOr_def)

lemma decoded_Inr: "(case r of Inl x \<Rightarrow> Inl BadTx | Inr a \<Rightarrow> Inr a) = Inr b \<longleftrightarrow> r = Inr b"
  by (cases r) simp_all

lemma unsignedInputs_Inr:
  "unsignedInputs seen tis = Inr () \<longleftrightarrow> list_all (\<lambda>ti. SignatureScript ti = [] \<and> Witness ti = []) tis
     \<and> distinct (map PreviousOutPoint tis) \<and> set seen \<inter> PreviousOutPoint ` set tis = {}"
  by (induction tis arbitrary: seen) auto

lemma byOutPoint_lookup:
  "lookup (foldl (\<lambda>m u. store m (u_outPoint u) u) [] us) op = Some u \<Longrightarrow> u \<in> set us \<and> u_outPoint u = op"
  by (induction us rule: rev_induct) (auto split: if_splits)

lemma pick_Inr:
  assumes "pick tx available = Inr (inputs, tot)"
  shows "set inputs \<subseteq> set available" "map u_outPoint inputs = map PreviousOutPoint (TxIn tx)" "tot = valueOf inputs"
proof -
  let ?m = "foldl (\<lambda>m u. store m (u_outPoint u) u) [] available"
  let ?f = "\<lambda>ti. case lookup ?m (PreviousOutPoint ti) of None \<Rightarrow> Inl UnknownInput | Some u \<Rightarrow> Inr u"
  have c: "collect (map ?f (TxIn tx)) = Inr inputs" and t: "tot = valueOf inputs" using assms by (auto simp: pick_def Let_def)
  have "set us \<subseteq> set available \<and> map u_outPoint us = map PreviousOutPoint tis" if "collect (map ?f tis) = Inr us" for tis us
    using that byOutPoint_lookup [of available]
    by (induction tis arbitrary: us) (auto split: option.splits)
  then show "set inputs \<subseteq> set available" "map u_outPoint inputs = map PreviousOutPoint (TxIn tx)" "tot = valueOf inputs"
    using c t by blast+
qed

lemma readChains_Inr:
  assumes "readChains H e req tx c = (Inr (s, e'), c')"
  shows "c' = c" "loadWith H e (e_doge e') c = Inr s" "e' = e\<lparr>e_doge := e_doge e'\<rparr>"
      "e_doge e' = e_doge e \<or> (e_import e \<noteq> None \<and> e_doge e' \<in> range (the (e_import e)))"
  using assms by (auto simp: readChains_def catchUp_def split: option.splits if_splits)

lemma countUnseen_Inr:
  assumes "countUnseen e s ev a c = (Inr (s', unseen), c')"
  shows "c' = c" "s' = s\<lparr>pendingFees := pendingFees s + unseen\<rparr>" "solvent (audit_of s')"
  using assms by (auto simp: countUnseen_def Let_def)

lemma check_Inr:
  assumes "check H E e req c = (Inr (tx, redeems, value), c')"
  obtains c1 c2 s0 s e' ev unseen want unspents where
    "\<not> (paused e \<and> Kind (q_action req) \<noteq> actionFence)" "decodeTx (q_tx req) = Inr tx" "unsignedInputs [] (TxIn tx) = Inr ()"
    "readChains H e req tx c1 = (Inr (s0, e'), c1)" "fixed c1 = fixed c" "s = s0\<lparr>pendingFees := pendingFees s0 + unseen\<rparr>"
    "solvent (audit_of s)" "fixed c2 = fixed c"
    "checkAction H e' s ev unseen (keyOrNone (q_action req)) req tx c2 = (Inr (want, redeems, value, unspents), c')"
    "fixed c' = fixed c" "encodeTx want = encodeTx tx" "checkLog H e' c' s ev req tx value unspents = Inr ()"
    "ev = evidenceFor H e' (c_bridge c) s0" "quarantined c = []"
proof -
  from assms obtain tx0 c1 s0 e' c1' c2 c3 s unseen c4 want value0 unspents where *:
    "\<not> (paused e \<and> Kind (q_action req) \<noteq> actionFence)" "decodeTx (q_tx req) = Inr tx0" "unsignedInputs [] (TxIn tx0) = Inr ()"
    and r: "registerAll H e (q_register req) c = (Inr (), c1)" and rd: "readChains H e req tx0 c1 = (Inr (s0, e'), c1')"
    and p: "passFences H E e' s0 req c1' = (Inr (), c2)"
    and l: "learn H e' (evidenceFor H e' (c_bridge c2) s0) c2 = (Inr (), c3)"
    and u: "countUnseen e' s0 (evidenceFor H e' (c_bridge c2) s0) (q_action req) c3 = (Inr (s, unseen), c4)"
    and a: "checkAction H e' s (evidenceFor H e' (c_bridge c2) s0) unseen (keyOrNone (q_action req)) req tx0 c4 = (Inr (want, redeems, value0, unspents), c')"
    and rest: "encodeTx want = encodeTx tx0" "checkLog H e' c' s (evidenceFor H e' (c_bridge c2) s0) req tx0 value0 unspents = Inr ()"
      "tx = tx0" "value = value0"
    by (simp only: check_def Let_def)
       (elim bindm_InrE; simp only: split_paired_all prod.case effect_simps decoded_Inr;
        elim conjE bindm_InrE; simp only: split_paired_all prod.case effect_simps;
        elim conjE bindm_InrE; simp only: split_paired_all prod.case effect_simps;
        elim conjE bindm_InrE; simp)
  have c1: "c1' = c1" using readChains_Inr(1) [OF rd] by simp
  have f1: "fixed c1 = fixed c" by (rule keeps_fixed_registerAll [THEN fixedD, OF r])
  have f2: "fixed c2 = fixed c" using keeps_fixed_parts(2) [THEN fixedD, OF p] c1 f1 by simp
  have f3: "fixed c3 = fixed c" using keeps_fixed_learn [THEN fixedD, OF l] f2 by simp
  have c4: "c4 = c3" "s = s0\<lparr>pendingFees := pendingFees s0 + unseen\<rparr>" "solvent (audit_of s)" using countUnseen_Inr [OF u] by simp_all
  have f4: "fixed c' = fixed c" using keeps_fixed_checkAction [THEN fixedD, OF a] f3 c4(1) by simp
  have b: "c_bridge c2 = c_bridge c" using f2 by (simp add: fixed_def)
  have "quarantined c1 = []" using p c1 by (auto simp: passFences_def cosigner_fence_def)
  then have q: "quarantined c = []" using keepsD [OF keeps_marker_registerAll refl r] by (simp add: quarantined_def)
  show thesis
    using that [of c1 s0 e' s unseen c4 "evidenceFor H e' (c_bridge c) s0" want unspents] * rd c1 f1 f3 f4 c4 a rest b q by simp
qed

section \<open>Signing and what it leaves in the log\<close>

lemma handleSign_outcome:
  assumes "handleSign H E e req c = (r, c')"
  obtains (refused) x where "r = Inl x" "fixed c' = fixed c"
  | (signed) c1 key tx redeems v sigs where "action_key (q_action req) = Inr key" "check H E e req c = (Inr (tx, redeems, v), c1)"
      "fixed c1 = fixed c" "signInputs H E tx redeems (c_key c) = Inr sigs"
      "c' = c1\<lparr>c_log := log_record H (e_now e) key (q_chain req) tx v (feeFor c1 (q_action req)) (c_log c1)\<rparr>"
      "r = (if e_writes e then Inr (pubOf E (c_key c), map hexEncode sigs) else Inl WriteFailed)"
proof (cases "action_key (q_action req)")
  case (Inl x)
  then show thesis using assms refused [of x] by (auto simp: handleSign_def effect_run)
next
  case (Inr key)
  obtain q c1 where q: "check H E e req c = (q, c1)" by (cases "check H E e req c")
  have f: "fixed c1 = fixed c" by (rule keeps_fixed_check [THEN fixedD, OF q])
  show thesis
  proof (cases q)
    case (Inl x)
    then show thesis using assms refused [of x] q Inr f by (auto simp: handleSign_def effect_run)
  next
    fix ok assume ok: "q = Inr ok"
    obtain tx redeems v where o: "ok = (tx, redeems, v)" by (cases ok)
    have k: "c_key c1 = c_key c" using f by (simp add: fixed_def)
    show thesis
    proof (cases "signInputs H E tx redeems (c_key c)")
      case (Inl x)
      then show thesis using assms refused [of "Failed x"] q ok o f k \<open>action_key (q_action req) = Inr key\<close>
        by (auto simp: handleSign_def effect_run failed_def)
    next
      fix sigs assume s: "signInputs H E tx redeems (c_key c) = Inr sigs"
      show thesis
        by (rule signed [OF Inr _ f s]) (use assms q Inr ok o k s in \<open>auto simp: handleSign_def effect_run failed_def setLog_def writeLog_def split: if_splits\<close>)
    qed
  qed
qed

section \<open>What one kind of action excludes\<close>

lemma checkRelease_Inr:
  assumes "checkRelease H e c s req tx = Inr (want, redeems, v, unspents)"
  obtains op d inputs where "q_chain req = chainDogecoinVM" "parseOutPoint (Deposit (q_action req)) = Some op"
    "\<not> has_key (released s) op" "\<not> has_key (refunded s) op" "\<not> isCancelled s op"
    "\<not> log_has (c_log c) (actionCancel @ '':'' @ OutPoint_String op)" "\<not> log_has (c_log c) (actionRefund @ '':'' @ OutPoint_String op)"
    "findDeposit (deposits s) op = Some d" "confirmationsFor (c_bridge c) (d_value d) \<le> d_confirmations d" "v = d_value d"
    "spendsAnchor tx (reserveAnchor s) = Inr ()" "pick tx (reserveUTXOs s) = Inr (inputs, valueOf inputs)" "d_value d + pegDust \<le> valueOf inputs"
    "buildRelease H (c_bridge c) inputs (valueOf inputs) d = Inr want"
proof -
  from assms obtain op d inputs tot where *: "q_chain req = chainDogecoinVM" "parseOutPoint (Deposit (q_action req)) = Some op"
    "\<not> has_key (released s) op" "\<not> has_key (refunded s) op" "\<not> isCancelled s op"
    "\<not> log_has (c_log c) (actionCancel @ '':'' @ OutPoint_String op)" "\<not> log_has (c_log c) (actionRefund @ '':'' @ OutPoint_String op)"
    "findDeposit (deposits s) op = Some d" "confirmationsFor (c_bridge c) (d_value d) \<le> d_confirmations d" "v = d_value d"
    "spendsAnchor tx (reserveAnchor s) = Inr ()" "pick tx (reserveUTXOs s) = Inr (inputs, tot)" "d_value d + pegDust \<le> tot"
    "buildRelease H (c_bridge c) inputs tot d = Inr want"
    by (simp only: checkRelease_def Let_def)
       (elim bindr_InrE; simp only: split_paired_all prod.case;
        elim bindr_InrE; simp only: guardr_Inr_iff findOr_Inr failed_Inr sum.inject prod.inject unit_eq de_Morgan_disj; elim conjE; simp)
  with pick_Inr(3) [OF *(12)] show thesis by (intro that [of op d inputs]) simp_all
qed

lemma checkAction_release:
  "Kind (q_action req) = actionRelease \<Longrightarrow> checkAction H e s ev unseen key req tx c = (Inr r, c') \<longleftrightarrow> checkRelease H e c s req tx = Inr r \<and> c' = c"
  by (auto simp: checkAction_def bindm_Inr_iff)

end
