(* ===== verification/Served.thy ===== *)
theory Served
  imports Check
begin

text \<open>
  What a signer promises over any sequence of requests: the requests it serves as a step relation, the log they
  leave, what a logged action excludes, and quarantine.
\<close>

section \<open>Everything logged stays logged\<close>

definition grows :: "signingLog \<Rightarrow> signingLog \<Rightarrow> bool" where
  "grows l l' \<longleftrightarrow> (\<forall>k a. lookup (Actions l) k = Some a \<longrightarrow> (\<exists>a' new. lookup (Actions l') k = Some a'
     \<and> LValue a' = LValue a \<and> First a' = First a \<and> map core (Txs a') = map core (Txs a) @ new))"

lemma growsE:
  assumes "grows l l'" "lookup (Actions l) k = Some a"
  obtains a' new where "lookup (Actions l') k = Some a'" "LValue a' = LValue a" "First a' = First a" "map core (Txs a') = map core (Txs a) @ new"
  using assms unfolding grows_def by blast

lemma grows_trans:
  assumes "grows l m" "grows m n"
  shows "grows l n"
  unfolding grows_def
proof (intro allI impI)
  fix k a assume "lookup (Actions l) k = Some a"
  with assms(1) obtain b new where b: "lookup (Actions m) k = Some b" "LValue b = LValue a" "First b = First a" "map core (Txs b) = map core (Txs a) @ new"
    by (rule growsE)
  from assms(2) b(1) obtain d more' where "lookup (Actions n) k = Some d" "LValue d = LValue b" "First d = First b" "map core (Txs d) = map core (Txs b) @ more'"
    by (rule growsE)
  with b show "\<exists>a' new. lookup (Actions n) k = Some a' \<and> LValue a' = LValue a \<and> First a' = First a \<and> map core (Txs a') = map core (Txs a) @ new"
    by simp
qed

lemma lookup_digest: "lookup (digest l) k = map_option (\<lambda>a. (LValue a, First a, map core (Txs a))) (lookup (Actions l) k)"
  unfolding digest_def by (rule lookup_map)

lemma digest_lookup:
  assumes "digest l = digest l'" "lookup (Actions l) k = Some a"
  obtains a' where "lookup (Actions l') k = Some a'" "LValue a' = LValue a" "First a' = First a" "map core (Txs a') = map core (Txs a)"
  using lookup_digest [of l k] lookup_digest [of l' k] assms by auto

lemma digest_grows: "digest l = digest l' \<Longrightarrow> grows l l'"
  unfolding grows_def by (metis append_Nil2 digest_lookup)

lemma grows_record: "grows l (log_record H now key chn tx v fee l)"
  by (auto simp: grows_def Actions_log_record Let_def get_or_def)

lemma digest_canonical: "digest l = digest l' \<Longrightarrow> canonicalLog l = canonicalLog l'"
proof -
  have "map fst (Actions m) = map fst (digest m)" for m by (simp add: digest_def comp_def case_prod_beta)
  moreover assume "digest l = digest l'"
  ultimately have "map fst (Actions l) = map fst (Actions l')" by simp
  then show ?thesis unfolding canonicalLog_iff by (metis list.set_map)
qed

lemma fixed_digest: "fixed c = fixed c' \<Longrightarrow> digest (c_log c) = digest (c_log c')"
  by (simp add: fixed_def)

text \<open>
  The requests a signer serves, one at a time and whatever the outside answers, refused ones included: a step keeps
  what the handler wrote before it failed.
\<close>

inductive served :: "hashes \<Rightarrow> ecdsa \<Rightarrow> cosigner \<Rightarrow> cosigner \<Rightarrow> bool" for H E where
  sign: "handleSign H E e req c = (r, c') \<Longrightarrow> served H E c c'"
| register: "handleRegister H e text c = (r', c') \<Longrightarrow> served H E c c'"
| status: "handleStatus H E e c = (r'', c') \<Longrightarrow> served H E c c'"

lemma handleSign_log:
  assumes "handleSign H E e req c = (r, c')" "canonicalLog (c_log c)"
  shows "canonicalLog (c_log c') \<and> grows (c_log c) (c_log c')"
  using assms(1)
proof (cases rule: handleSign_outcome)
  case refused
  then show ?thesis using assms(2) digest_canonical digest_grows fixed_digest by metis
next
  case (signed c1 key tx redeems v sigs)
  have d: "digest (c_log c) = digest (c_log c1)" using signed(3) fixed_digest by metis
  then have "canonicalLog (c_log c1)" using assms(2) digest_canonical by blast
  then show ?thesis using signed(5) canonicalLog_record [OF _ signed(1)] grows_trans [OF digest_grows [OF d] grows_record] by simp
qed

lemma served_log:
  "served H E c c' \<Longrightarrow> canonicalLog (c_log c) \<Longrightarrow> canonicalLog (c_log c') \<and> grows (c_log c) (c_log c')"
proof (induction rule: served.induct)
  case (sign e req c r c')
  then show ?case by (rule handleSign_log)
next
  case (register e h c r' c')
  then show ?case using keeps_fixed_handleRegister [THEN fixedD, OF register(1)] digest_canonical digest_grows fixed_digest by metis
next
  case (status e c r'' c')
  then show ?case using keeps_fixed_handleStatus [THEN fixedD, OF status(1)] digest_canonical digest_grows fixed_digest by metis
qed

lemma history_log:
  "(served H E)\<^sup>*\<^sup>* c c' \<Longrightarrow> canonicalLog (c_log c) \<Longrightarrow> canonicalLog (c_log c') \<and> grows (c_log c) (c_log c')"
proof (induction rule: rtranclp_induct)
  case base
  then show ?case using digest_grows by blast
next
  case (step c1 c2)
  then show ?case using served_log grows_trans by blast
qed

lemma grows_has: "grows l l' \<Longrightarrow> log_has l key \<Longrightarrow> log_has l' key"
  unfolding log_has_def has_key_def by (auto elim: growsE)

lemma fixed_has: "fixed c = fixed c' \<Longrightarrow> log_has (c_log c) key = log_has (c_log c') key"
  by (metis digest_grows fixed_digest grows_has)

section \<open>What a logged refund excludes\<close>

text \<open>A refund or cancellation in the log: no later request makes the signer credit the deposit.\<close>

lemma logged_refund_bars_release:
  assumes "log_has (c_log c) (actionRefund @ '':'' @ OutPoint_String op) \<or> log_has (c_log c) (actionCancel @ '':'' @ OutPoint_String op)"
    and "Kind (q_action req) = actionRelease" "parseOutPoint (Deposit (q_action req)) = Some op"
  shows "\<exists>x. fst (handleSign H E e req c) = Inl x \<and> fixed (snd (handleSign H E e req c)) = fixed c"
proof -
  obtain r c' where run: "handleSign H E e req c = (r, c')" by (cases "handleSign H E e req c")
  from this show ?thesis
  proof (cases rule: handleSign_outcome)
    case (refused x)
    then show ?thesis using run by simp
  next
    case (signed c1 key tx redeems v sigs)
    from signed(2) obtain c2 s e' ev unseen want unspents where f: "fixed c2 = fixed c"
      and a: "checkAction H e' s ev unseen (keyOrNone (q_action req)) req tx c2 = (Inr (want, redeems, v, unspents), c1)"
      by (rule check_Inr)
    have "checkRelease H e' c2 s req tx = Inr (want, redeems, v, unspents)" using a checkAction_release [OF assms(2)] by blast
    then have "\<not> log_has (c_log c2) (actionCancel @ '':'' @ OutPoint_String op)" "\<not> log_has (c_log c2) (actionRefund @ '':'' @ OutPoint_String op)"
      by (rule checkRelease_Inr, use assms(3) in simp)+
    then show ?thesis using assms(1) fixed_has [OF f] by blast
  qed
qed

section \<open>Quarantine\<close>

lemma quarantined_check:
  assumes "quarantined c \<noteq> []" "check H E e req c = (r, c')"
  shows "c_marker c' = c_marker c"
proof -
  have reg: "c_marker c1 = c_marker c" if "registerAll H e xs c = (q, c1)" for xs q c1
    by (rule keepsD [OF keeps_marker_registerAll refl that])
  have stop: "passFences H E e' s req c1 = (Inl Quarantined, c1)" if "c_marker c1 = c_marker c" for e' s c1
    using that assms(1) by (simp add: passFences_def cosigner_fence_def effect_run quarantined_def)
  have read: "snd (readChains H e req tx c1) = c1" for tx c1
    by (simp add: readChains_def effect_run case_prod_beta split: sum.split)
  show ?thesis
  proof (cases "\<exists>tx. decodeTx (q_tx req) = Inr tx \<and> unsignedInputs [] (TxIn tx) = Inr () \<and> \<not> (paused e \<and> Kind (q_action req) \<noteq> actionFence)")
    case False
    then have "c' = c" using assms(2) by (auto simp: check_def effect_run split: sum.splits if_splits)
    then show ?thesis by simp
  next
    case True
    then obtain tx where tx: "decodeTx (q_tx req) = Inr tx" "unsignedInputs [] (TxIn tx) = Inr ()" "\<not> (paused e \<and> Kind (q_action req) \<noteq> actionFence)" by blast
    obtain q c1 where q: "registerAll H e (q_register req) c = (q, c1)" by (cases "registerAll H e (q_register req) c")
    obtain p where p: "readChains H e req tx c1 = (p, c1)" using read [of tx c1] by (metis prod.collapse)
    have "c' = c1"
      using assms(2) stop [OF reg [OF q]] tx by (cases q; cases p) (auto simp: check_def effect_run q p)
    then show ?thesis using reg [OF q] by simp
  qed
qed

lemma quarantined_sign:
  assumes "quarantined c \<noteq> []" "handleSign H E e req c = (r, c')"
  shows "\<exists>x. r = Inl x" "fixed c' = fixed c" "c_marker c' = c_marker c"
proof -
  from assms(2) have *: "(\<exists>x. r = Inl x) \<and> fixed c' = fixed c"
  proof (cases rule: handleSign_outcome)
    case (signed c1 key tx redeems v sigs)
    from signed(2) have "quarantined c = []" by (rule check_Inr)
    then show ?thesis using assms(1) by simp
  qed simp
  then show "\<exists>x. r = Inl x" "fixed c' = fixed c" by simp_all
  show "c_marker c' = c_marker c"
  proof (cases "action_key (q_action req)")
    case (Inl x)
    then show ?thesis using assms(2) by (simp add: handleSign_def effect_run)
  next
    case (Inr key)
    obtain q c1 where q: "check H E e req c = (q, c1)" by (cases "check H E e req c")
    show ?thesis
    proof (cases q)
      case (Inl x)
      then show ?thesis using assms(2) Inr q quarantined_check [OF assms(1) q] by (simp add: handleSign_def effect_run)
    next
      fix ok assume ok: "q = Inr ok"
      obtain tx redeems v where "ok = (tx, redeems, v)" by (cases ok)
      with q ok have "check H E e req c = (Inr (tx, redeems, v), c1)" by simp
      then have "quarantined c = []" by (rule check_Inr)
      then show ?thesis using assms(1) by simp
    qed
  qed
qed

lemma quarantined_served:
  assumes "served H E c c'" "quarantined c \<noteq> []"
  shows "c_marker c' = c_marker c \<and> fixed c' = fixed c"
  using assms
proof (induction rule: served.induct)
  case (sign e req c r c')
  then show ?case using quarantined_sign(2,3) [OF sign(2) sign(1)] by simp
next
  case (register e h c r' c')
  have "keeps (\<lambda>c. c_marker c = m) (handleRegister H e h)" for m
    unfolding handleRegister_def by (intro peg_inv keeps_marker_register)
  from keepsD [OF this refl register(1)] show ?case using keeps_fixed_handleRegister [THEN fixedD, OF register(1)] by simp
next
  case (status e c r'' c')
  then have "c' = c" by (auto simp: handleStatus_def effect_run split: sum.splits)
  then show ?case by simp
qed

lemma quarantined_history:
  "(served H E)\<^sup>*\<^sup>* c c' \<Longrightarrow> quarantined c \<noteq> [] \<Longrightarrow> c_marker c' = c_marker c \<and> fixed c' = fixed c"
proof (induction rule: rtranclp_induct)
  case (step c1 c2)
  then have "quarantined c1 \<noteq> []" by (simp add: quarantined_def)
  with step show ?case using quarantined_served by fastforce
qed simp

section \<open>Samples\<close>

text \<open>One deposit, deep enough, and a reserve of one coin.\<close>

definition sampleCreation :: chainTx where
  "sampleCreation = \<lparr>t_tx = \<lparr>Version = 1, TxIn = [NewTxIn \<lparr>Hash = zeroHash, Index = 0xffffffff\<rparr> [] []],
     TxOut = [NewTxOut 900000000 samplePeg], LockTime = 0\<rparr>, t_confirmations = 40, t_time = 1000\<rparr>"

definition sampleMinted :: OutPoint where
  "sampleMinted = \<lparr>Hash = TxHash sampleHashes (t_tx sampleCreation), Index = 0\<rparr>"

definition sampleAccount :: bytes where
  "sampleAccount = p2shScript sampleHashes (depositRedeemScript sampleSigners sampleDest)"

definition samplePaidIn :: chainTx where
  "samplePaidIn = \<lparr>t_tx = \<lparr>Version = 1, TxIn = [NewTxIn otherCoin [] []], TxOut = [NewTxOut 300000000 sampleAccount], LockTime = 0\<rparr>,
     t_confirmations = 25, t_time = 3000\<rparr>"

definition samplePaid :: OutPoint where
  "samplePaid = \<lparr>Hash = TxHash sampleHashes (t_tx samplePaidIn), Index = 0\<rparr>"

definition sampleNodes :: env where
  "sampleNodes = sampleEnv\<lparr>
     e_vm := \<lparr>txsFor = (\<lambda>addrs. Inr [sampleCreation]), unspent = (\<lambda>addrs n. Inr [coinOf sampleMinted 900000000 40]),
              conflictedFor = None, inBlock = None, inUTXOSet = Some (\<lambda>op. Inr True)\<rparr>,
     e_doge := \<lparr>txsFor = (\<lambda>addrs. Inr [samplePaidIn]),
              unspent = (\<lambda>addrs n. Inr [\<lparr>u_outPoint = samplePaid, u_value = 300000000, u_pkScript = sampleAccount, u_confirmations = 25\<rparr>]),
              conflictedFor = None, inBlock = None, inUTXOSet = None\<rparr>\<rparr>"

definition sampleSeen :: pegState where
  "sampleSeen = (case load sampleHashes sampleBridge (e_vm sampleNodes) (e_doge sampleNodes) (Inr [sampleDest]) NoFile of Inr s \<Rightarrow> s | Inl x \<Rightarrow> emptyState)"

definition sampleCredit :: deposit where
  "sampleCredit = \<lparr>d_time = 3000, d_outPoint = samplePaid, d_value = 300000000, d_dest = sampleDest, d_valid = True, d_hasDest = True,
     d_confirmations = 25\<rparr>"

lemma seen_eval:
  "case load sampleHashes sampleBridge (e_vm sampleNodes) (e_doge sampleNodes) (Inr [sampleDest]) NoFile of Inl x \<Rightarrow> False | Inr s \<Rightarrow>
     vmTxs s = [sampleCreation] \<and> dogeTxs s = [samplePaidIn] \<and> released s = [] \<and> refunded s = [] \<and> cancelled s = []
     \<and> deposits s = [sampleCredit] \<and> reserveUTXOs s = [coinOf sampleMinted 900000000 40]
     \<and> reserveAnchor s = Some (coinOf sampleMinted 900000000 40) \<and> solvent (audit_of s)"
  by code_simp

lemma seen_load: "load sampleHashes sampleBridge (e_vm sampleNodes) (e_doge sampleNodes) (Inr [sampleDest]) NoFile = Inr sampleSeen"
  using seen_eval by (simp add: sampleSeen_def split: sum.splits)

lemma seen:
  "vmTxs sampleSeen = [sampleCreation]" "dogeTxs sampleSeen = [samplePaidIn]" "released sampleSeen = []" "refunded sampleSeen = []"
  "cancelled sampleSeen = []" "deposits sampleSeen = [sampleCredit]" "reserveUTXOs sampleSeen = [coinOf sampleMinted 900000000 40]"
  "reserveAnchor sampleSeen = Some (coinOf sampleMinted 900000000 40)" "solvent (audit_of sampleSeen)"
  using seen_eval unfolding seen_load sum.case by simp_all

definition sampleRelease :: MsgTx where
  "sampleRelease = \<lparr>Version = 1, TxIn = [NewTxIn sampleMinted [] []], TxOut = [NewTxOut 299000000 (pkScript sampleDest),
     NewTxOut 600000000 samplePeg, NewTxOut 0 (OP_RETURN # pushBytes (encodeRelease samplePaid))], LockTime = 0\<rparr>"

definition sampleCreditKey :: string where
  "sampleCreditKey = actionRelease @ '':'' @ OutPoint_String samplePaid"

text \<open>The signer signed another release of the deposit before, with the same coin.\<close>

definition sampleEarlier :: signingLog where
  "sampleEarlier = log_record sampleHashes 1000 sampleCreditKey chainDogecoinVM (sampleRelease\<lparr>LockTime := 1\<rparr>) 300000000 0 createSigningLog"

definition sampleProven :: cosigner where
  "sampleProven = sampleSigner\<lparr>c_log := sampleEarlier, c_registry := [sampleDest]\<rparr>"

definition sampleSignRequest :: signRequest where
  "sampleSignRequest = \<lparr>q_chain = chainDogecoinVM, q_action = \<lparr>Kind = actionRelease, Deposit = OutPoint_String samplePaid, PegOut = [], To = []\<rparr>,
     q_tx = encodeTx sampleRelease, q_register = [], q_fee = 0\<rparr>"

definition sampleMine :: "(bytes, bool) gomap" where
  "sampleMine = [(TxHash sampleHashes (t_tx sampleCreation), False), (TxHash sampleHashes (t_tx samplePaidIn), False)]"

definition sampleEvidence :: chainEvidence where
  "sampleEvidence = \<lparr>listed = [(chainDogecoinVM, byUnsignedID sampleHashes [sampleCreation]), (chainDogecoin, byUnsignedID sampleHashes [samplePaidIn])],
     nodes = Some (chainNamed sampleNodes), deep = 20\<rparr>"

lemma sample_tx:
  "wf_MsgTx sampleRelease"
  "TxIn sampleRelease \<noteq> []"
  "unsignedInputs [] (TxIn sampleRelease) = Inr ()"
  by code_simp+

lemma sample_texts:
  "action_key (q_action sampleSignRequest) = Inr sampleCreditKey"
  "parseOutPoint (OutPoint_String samplePaid) = Some samplePaid"
  "parseOutPoint (OutPoint_String sampleMinted) = Some sampleMinted"
  "unloggedLoop sampleHashes sampleECDSA sampleSigners [3] (txids sampleEarlier) [sampleCreation, samplePaidIn] [] = ([], sampleMine)"
  by code_simp+

lemma sample_learnt:
  "learnSigned sampleHashes sampleEvidence sampleEarlier = sampleEarlier"
  by code_simp

lemma sample_built:
  "pick sampleRelease [coinOf sampleMinted 900000000 40] = Inr ([coinOf sampleMinted 900000000 40], 900000000)"
  "buildRelease sampleHashes sampleBridge [coinOf sampleMinted 900000000 40] 900000000 sampleCredit = Inr sampleRelease"
  by code_simp+

lemma sample_permit:
  "permit sampleEarlier sampleCreditKey chainDogecoinVM sampleRelease [sampleMinted] (Some sampleEvidence) (unspentOn (e_vm sampleNodes)) = Inr ()"
  by code_simp

lemma sample_log:
  "is_ok (signInputs sampleHashes sampleECDSA sampleRelease [redeemScript sampleSigners] [3])"
  "confirmationsFor sampleBridge 300000000 \<le> 25"
  "canonicalLog sampleEarlier"
  "Anchors sampleEarlier = [(chainDogecoinVM, OutPoint_String sampleMinted)]"
  "History sampleEarlier = historyNew"
  "Cutover sampleEarlier = []"
  by code_simp+

lemmas sample_parts = sample_tx sample_texts sample_learnt sample_built sample_permit sample_log

lemma sample_read: "readChains sampleHashes sampleNodes sampleSignRequest sampleRelease sampleProven = (Inr (sampleSeen, sampleNodes), sampleProven)"
proof -
  have "loadWith sampleHashes sampleNodes (e_doge sampleNodes) sampleProven = Inr sampleSeen"
    using seen_load by (simp add: loadWith_def sampleProven_def sampleSigner_def sampleNodes_def sampleEnv_def)
  moreover have "e_import sampleNodes = None" by (simp add: sampleNodes_def sampleEnv_def)
  ultimately show ?thesis by (simp add: readChains_def catchUp_def effect_run)
qed

lemma sample_pass: "passFences sampleHashes sampleECDSA sampleNodes sampleSeen sampleSignRequest sampleProven = (Inr (), sampleProven\<lparr>c_mine := sampleMine\<rparr>)"
proof -
  have c: "quarantined sampleProven = []" "signers (c_bridge sampleProven) = sampleSigners" "pubOf sampleECDSA (c_key sampleProven) = [3]"
    "c_log sampleProven = sampleEarlier" "c_mine sampleProven = []" "Kind (q_action sampleSignRequest) \<noteq> actionFence"
    by (simp_all add: quarantined_def sampleProven_def sampleSigner_def sampleBridge_def sampleECDSA_def sampleSignRequest_def action_kinds)
  have "unlogged sampleHashes sampleECDSA sampleSeen sampleProven = (Inr [], sampleProven\<lparr>c_mine := sampleMine\<rparr>)"
    using sample_parts(7) by (simp add: unlogged_def seen c del: unloggedLoop.simps)
  moreover have "cutoverGate sampleHashes sampleECDSA sampleNodes sampleSeen (sampleProven\<lparr>c_mine := sampleMine\<rparr>) = (Inr (), sampleProven\<lparr>c_mine := sampleMine\<rparr>)"
    by (simp add: cutoverGate_def advanceCutover_def effect_run c sample_parts unproven_def historyNew_def)
  ultimately show ?thesis using c(1,6) by (simp add: passFences_def cosigner_fence_def effect_run)
qed

definition sampleReady :: cosigner where
  "sampleReady = sampleProven\<lparr>c_mine := sampleMine\<rparr>"

lemma sample_ready: "c_bridge sampleReady = sampleBridge" "c_log sampleReady = sampleEarlier" "c_maxDaily sampleReady = 0" "c_key sampleReady = [3]"
  by (simp_all add: sampleReady_def sampleProven_def sampleSigner_def)

lemma sample_bridge: "depositConfirmations sampleBridge = 20" "maxCirculating sampleBridge = 0" "confFloor sampleBridge = 6" "signers sampleBridge = sampleSigners"
  by (simp_all add: sampleBridge_def)

lemma sample_evidence: "evidenceFor sampleHashes sampleNodes sampleBridge sampleSeen = sampleEvidence"
  by (simp add: evidenceFor_def newChainEvidence_def seen sampleEvidence_def sample_bridge)

lemma sample_learn: "learn sampleHashes sampleNodes sampleEvidence sampleReady = (Inr (), sampleReady)"
proof -
  have "sampleReady\<lparr>c_log := sampleEarlier\<rparr> = sampleReady" using sample_ready(2) by simp
  then show ?thesis by (simp add: learn_def effect_run setLog_def Let_def sample_ready sample_parts(8))
qed

lemma sample_count: "countUnseen sampleNodes sampleSeen sampleEvidence (q_action sampleSignRequest) sampleReady = (Inr (sampleSeen, 0), sampleReady)"
proof -
  have "map fst (Actions sampleEarlier) = [sampleCreditKey]" by (simp add: sampleEarlier_def Actions_log_record createSigningLog_def store_new)
  then obtain a where "Actions sampleEarlier = [(sampleCreditKey, a)]" by auto
  moreover have "keyOrNone (q_action sampleSignRequest) = sampleCreditKey" by (simp add: keyOrNone_def sample_parts)
  ultimately show ?thesis using seen(9) by (simp add: countUnseen_def effect_run Let_def sample_ready unseenFees_def)
qed

lemma sample_action: "checkAction sampleHashes sampleNodes sampleSeen sampleEvidence 0 sampleCreditKey sampleSignRequest sampleRelease sampleReady
   = (Inr (sampleRelease, [redeemScript sampleSigners], 300000000, [sampleMinted]), sampleReady)"
proof -
  have r: "Kind (q_action sampleSignRequest) = actionRelease" "q_chain sampleSignRequest = chainDogecoinVM"
    "Deposit (q_action sampleSignRequest) = OutPoint_String samplePaid" by (simp_all add: sampleSignRequest_def)
  have ks: "map fst (Actions sampleEarlier) = [sampleCreditKey]" by (simp add: sampleEarlier_def Actions_log_record createSigningLog_def store_new)
  have l: "\<not> log_has sampleEarlier (actionCancel @ '':'' @ OutPoint_String samplePaid)" "\<not> log_has sampleEarlier (actionRefund @ '':'' @ OutPoint_String samplePaid)"
    using lookup_notin [of _ "Actions sampleEarlier"] arg_cong [OF ks, of set] by (auto simp: log_has_def has_key_def sampleCreditKey_def action_kinds)
  have d: "findDeposit [sampleCredit] samplePaid = Some sampleCredit" "d_value sampleCredit = 300000000" "d_confirmations sampleCredit = 25"
    by (simp_all add: findDeposit_def sampleCredit_def)
  have a: "spendsAnchor sampleRelease (Some (coinOf sampleMinted 900000000 40)) = Inr ()"
    by (simp add: spendsAnchor_def sampleRelease_def NewTxIn_def coinOf_def)
  have u: "unspent (e_vm sampleNodes) addrs n = Inr [coinOf sampleMinted 900000000 40]" for addrs n by (simp add: sampleNodes_def)
  have "checkRelease sampleHashes sampleNodes sampleReady sampleSeen sampleSignRequest sampleRelease
      = Inr (sampleRelease, [redeemScript sampleSigners], 300000000, [sampleMinted])"
    using l d(1) a sample_parts(5,9,10,13)
    by (simp add: checkRelease_def Let_def r seen sample_ready sample_bridge d(2,3) u isCancelled_def has_key_def shallowRoom_def findOr_def
        failed_def pegDust_def coinOf_def [of sampleMinted, THEN arg_cong, of u_outPoint])
  then show ?thesis using checkAction_release [OF r(1)] by blast
qed

lemma sample_anchor: "anchorMoved sampleHashes sampleEarlier chainDogecoinVM sampleRelease inChain (Some line) = Inr ()"
proof -
  have "\<exists>ti. TxIn sampleRelease = [ti] \<and> PreviousOutPoint ti = sampleMinted" by (simp add: sampleRelease_def NewTxIn_def)
  moreover have "OutPoint_String sampleMinted \<noteq> []" by (simp add: OutPoint_String_def)
  ultimately show ?thesis by (auto simp: anchorMoved_def Let_def sample_parts(15) get_or_def sample_parts(6) add_2_eq_Suc')
qed

lemma sample_checkLog: "checkLog sampleHashes sampleNodes sampleReady sampleSeen sampleEvidence sampleSignRequest sampleRelease 300000000 [sampleMinted] = Inr ()"
proof -
  have "q_chain sampleSignRequest = chainDogecoinVM" "Kind (q_action sampleSignRequest) \<noteq> actionFence"
    by (simp_all add: sampleSignRequest_def action_kinds)
  moreover have "chainNamed sampleNodes chainDogecoinVM = e_vm sampleNodes" by (simp add: chainNamed_def chainDogecoin_def chainDogecoinVM_def)
  ultimately show ?thesis
    by (simp add: checkLog_def Let_def sample_parts(4,11) sample_ready sample_anchor)
qed

lemma sample_decoded: "decodeTx (q_tx sampleSignRequest) = Inr sampleRelease"
  using Deserialize_Serialize [OF sample_parts(1,2)] by (simp add: sampleSignRequest_def decodeTx_def encodeTx_def)

lemma sample_check: "check sampleHashes sampleECDSA sampleNodes sampleSignRequest sampleProven
   = (Inr (sampleRelease, [redeemScript sampleSigners], 300000000), sampleReady)"
proof -
  have q: "\<not> (paused sampleNodes \<and> Kind (q_action sampleSignRequest) \<noteq> actionFence)" "q_register sampleSignRequest = []"
    by (simp_all add: paused_def sampleNodes_def sampleEnv_def sampleSignRequest_def)
  have "keyOrNone (q_action sampleSignRequest) = sampleCreditKey" by (simp add: keyOrNone_def sample_parts)
  then show ?thesis
    using q by (simp add: check_def effect_run Let_def sample_decoded sample_parts(3) sample_read sample_pass sampleReady_def [symmetric] sample_ready
      sample_evidence sample_learn sample_count sample_action sample_checkLog del: de_Morgan_conj)
qed

definition sampleAnswer :: "(cerr + bytes \<times> string list) \<times> cosigner" where
  "sampleAnswer = handleSign sampleHashes sampleECDSA sampleNodes sampleSignRequest sampleProven"

lemma sample_signed: "\<exists>sigs. handleSign sampleHashes sampleECDSA sampleNodes sampleSignRequest sampleProven = (Inr ([3], sigs), snd sampleAnswer)"
proof -
  obtain raw where raw: "signInputs sampleHashes sampleECDSA sampleRelease [redeemScript sampleSigners] [3] = Inr raw"
    using sample_parts(12) by (auto simp: is_ok_iff)
  have "e_writes sampleNodes" "pubOf sampleECDSA [3] = [3]" by (simp_all add: sampleNodes_def sampleEnv_def sampleECDSA_def)
  then have "\<exists>sigs. fst sampleAnswer = Inr ([3], sigs)"
    by (simp add: sampleAnswer_def handleSign_def effect_run sample_parts(4) sample_check sample_ready raw failed_def setLog_def writeLog_def)
  then show ?thesis by (metis sampleAnswer_def prod.collapse)
qed

text \<open>A release of a deposit the sample log has cancelled.\<close>

definition sampleLateRelease :: signRequest where
  "sampleLateRelease = sampleSignRequest\<lparr>q_action := \<lparr>Kind = actionRelease, Deposit = OutPoint_String sampleRef, PegOut = [], To = []\<rparr>\<rparr>"

section \<open>Properties\<close>

text \<open>C36: however many requests a signer serves, refused or not and whatever its nodes and files answer, its log stays
  well formed (each action under one canonical key) and forgets nothing: every action keeps its value, its first
  signing and its transactions in order, with their inputs, chains and fees.\<close>

theorem log_never_forgets:
  assumes "(served H E)\<^sup>*\<^sup>* c c'" "canonicalLog (c_log c)"
  shows "canonicalLog (c_log c') \<and> grows (c_log c) (c_log c')"
  by (rule history_log [OF assms])

theorem log_never_forgets_witness:
  "canonicalLog (c_log (snd sampleAnswer)) \<and> grows sampleEarlier (c_log (snd sampleAnswer))"
proof -
  have "(served sampleHashes sampleECDSA)\<^sup>*\<^sup>* sampleProven (snd sampleAnswer)"
    using sample_signed by (blast intro: served.sign)
  then show ?thesis using log_never_forgets [of sampleHashes sampleECDSA sampleProven] sample_parts(14) by (simp add: sampleProven_def)
qed

text \<open>C1: once a signer has a refund or a cancellation of a deposit in its log, no request it serves later, in any
  order and with any answers of its nodes, makes it sign a release of that deposit or log one.\<close>

theorem refund_then_never_release:
  assumes "log_has (c_log c) (actionRefund @ '':'' @ OutPoint_String op) \<or> log_has (c_log c) (actionCancel @ '':'' @ OutPoint_String op)"
    and "canonicalLog (c_log c)" "(served H E)\<^sup>*\<^sup>* c c'"
    and "Kind (q_action req) = actionRelease" "parseOutPoint (Deposit (q_action req)) = Some op"
  shows "\<exists>x. fst (handleSign H E e req c') = Inl x \<and> digest (c_log (snd (handleSign H E e req c'))) = digest (c_log c')"
proof -
  have "grows (c_log c) (c_log c')" using history_log [OF assms(3,2)] by simp
  then have "log_has (c_log c') (actionRefund @ '':'' @ OutPoint_String op) \<or> log_has (c_log c') (actionCancel @ '':'' @ OutPoint_String op)"
    using assms(1) grows_has by blast
  from logged_refund_bars_release [OF this assms(4,5), of H E e]
  show ?thesis by (elim exE conjE) (intro exI conjI fixed_digest)
qed

theorem refund_then_never_release_witness:
  "\<exists>x. fst (handleSign sampleHashes sampleECDSA sampleNodes sampleLateRelease
     (snd (handleStatus sampleHashes sampleECDSA sampleNodes (sampleSigner\<lparr>c_log := sampleLog\<rparr>)))) = Inl x"
proof -
  let ?c = "sampleSigner\<lparr>c_log := sampleLog\<rparr>"
  have "log_has sampleLog (actionCancel @ '':'' @ OutPoint_String sampleRef)" "canonicalLog sampleLog"
    "parseOutPoint (OutPoint_String sampleRef) = Some sampleRef" by code_simp+
  moreover have "(served sampleHashes sampleECDSA)\<^sup>*\<^sup>* ?c (snd (handleStatus sampleHashes sampleECDSA sampleNodes ?c))"
    using served.status [of sampleHashes sampleECDSA sampleNodes ?c] by (metis prod.collapse r_into_rtranclp)
  ultimately show ?thesis
    using refund_then_never_release [of ?c sampleRef sampleHashes sampleECDSA _ sampleLateRelease sampleNodes]
    by (fastforce simp: sampleLateRelease_def)
qed

text \<open>C37: a quarantined signer stays quarantined whatever requests it serves, and refuses every signature, fences
  included: its log holds exactly the transactions it held before.\<close>

theorem quarantined_signs_nothing:
  assumes "quarantined c \<noteq> []" "(served H E)\<^sup>*\<^sup>* c c'"
  shows "quarantined c' = quarantined c \<and> digest (c_log c') = digest (c_log c) \<and> (\<exists>x. fst (handleSign H E e req c') = Inl x)"
proof -
  have h: "c_marker c' = c_marker c" "fixed c' = fixed c" using quarantined_history [OF assms(2,1)] by simp_all
  then have q: "quarantined c' = quarantined c" by (simp add: quarantined_def)
  obtain r c2 where "handleSign H E e req c' = (r, c2)" by (cases "handleSign H E e req c'")
  with quarantined_sign(1) [of c'] q assms(1) have "\<exists>x. fst (handleSign H E e req c') = Inl x" by simp
  with q fixed_digest [OF h(2)] show ?thesis by simp
qed

theorem quarantined_signs_nothing_witness:
  "\<exists>x. fst (handleSign sampleHashes sampleECDSA sampleNodes sampleSignRequest
     (snd (handleRegister sampleHashes sampleNodes (encodeDest sampleDest) (sampleProven\<lparr>c_marker := Contents ''stale''\<rparr>)))) = Inl x"
proof -
  let ?c = "sampleProven\<lparr>c_marker := Contents ''stale''\<rparr>"
  have "trimSpace ''stale'' \<noteq> []" by code_simp
  then have "quarantined ?c \<noteq> []" by (simp add: quarantined_def)
  moreover have "(served sampleHashes sampleECDSA)\<^sup>*\<^sup>* ?c (snd (handleRegister sampleHashes sampleNodes (encodeDest sampleDest) ?c))"
    using served.register [of sampleHashes sampleNodes "encodeDest sampleDest" ?c] by (metis prod.collapse r_into_rtranclp)
  ultimately show ?thesis using quarantined_signs_nothing by blast
qed



text \<open>C8: two transactions a signer signs for one action never both confirm: while the node still has every input
  of an earlier one unspent, the signer signs another only if it spends one of the same outputs.\<close>

theorem earlier_signing_conflicts:
  assumes "handleSign H E e req c = (Inr r, c')" "action_key (q_action req) = Inr key" "decodeTx (q_tx req) = Inr tx"
    and "lookup (Actions (c_log c)) key = Some a" "prev \<in> set (Txs a)"
    and "inUTXOSet (chainNamed e (q_chain req)) = Some f" "\<forall>i \<in> set (Inputs prev). \<exists>op. parseOutPoint i = Some op \<and> f op = Inr True"
    and "\<forall>importTx missing. e_import e = Some importTx \<longrightarrow> inUTXOSet (importTx missing) = inUTXOSet (e_doge e)"
  shows "\<exists>i \<in> set (Inputs prev). i \<in> set (inputTexts tx)"
  using assms(1)
proof (cases rule: handleSign_outcome)
  case (signed c1 key' tx' redeems v raw)
  from signed(2) obtain c2 s0 s e' ev unspents where ch: "decodeTx (q_tx req) = Inr tx'" "readChains H e req tx' c2 = (Inr (s0, e'), c2)"
    "checkLog H e' c1 s ev req tx' v unspents = Inr ()" by (rule check_Inr)
  have tx: "tx' = tx" "key' = key" using ch(1) assms(2,3) signed(1) by simp_all
  note r = readChains_Inr [OF ch(2)]
  have "inUTXOSet (e_doge e') = inUTXOSet (e_doge e)" using r(4) assms(8) by auto
  moreover have "e_vm e' = e_vm e" by (subst r(3)) simp
  ultimately have f: "inUTXOSet (chainNamed e' (q_chain req)) = Some f" using assms(6) by (simp add: chainNamed_def split: if_splits)
  have p: "permit (c_log c1) key (q_chain req) tx unspents (Some ev) (unspentOn (chainNamed e' (q_chain req))) = Inr ()"
    using ch(3) assms(2) tx by (auto simp: checkLog_def Let_def)
  obtain a' where a': "lookup (Actions (c_log c1)) key = Some a'" "map core (Txs a') = map core (Txs a)"
    using digest_lookup [OF fixed_digest [OF signed(3) [symmetric]] assms(4)] by metis
  then have "core prev \<in> core ` set (Txs a')" using assms(5) by (metis image_eqI list.set_map)
  then obtain prev' where pr: "prev' \<in> set (Txs a')" "Inputs prev' = Inputs prev" by (auto simp: core_def)
  have "says (unspentOn (chainNamed e' (q_chain req))) op" if "f op = Inr True" for op
    using that f by (simp add: says_def unspentOn_def)
  then have "conflicting tx prev'" using permit_Inr(2) [OF p a'(1) pr(1)] assms(7) pr(2) by metis
  then show ?thesis using pr(2) by (simp add: conflicting_def list_ex_iff)
qed simp

theorem earlier_signing_conflicts_witness:
  "\<exists>prev \<in> set (Txs (the (lookup (Actions sampleEarlier) sampleCreditKey))). \<exists>i \<in> set (Inputs prev). i \<in> set (inputTexts sampleRelease)"
proof -
  obtain sigs where s: "handleSign sampleHashes sampleECDSA sampleNodes sampleSignRequest sampleProven = (Inr ([3], sigs), snd sampleAnswer)"
    using sample_signed by blast
  obtain a prev where a: "lookup (Actions (c_log sampleProven)) sampleCreditKey = Some a" "Txs a = [prev]" "Inputs prev = [OutPoint_String sampleMinted]"
    by (simp add: sampleProven_def sampleEarlier_def Actions_log_record createSigningLog_def get_or_def inputTexts_def sampleRelease_def NewTxIn_def)
  have "inUTXOSet (chainNamed sampleNodes (q_chain sampleSignRequest)) = Some (\<lambda>op. Inr True)" "e_import sampleNodes = None"
    by (simp_all add: chainNamed_def sampleSignRequest_def chainDogecoin_def chainDogecoinVM_def sampleNodes_def sampleEnv_def)
  then have "\<exists>i \<in> set (Inputs prev). i \<in> set (inputTexts sampleRelease)"
    using earlier_signing_conflicts [OF s sample_parts(4) sample_decoded a(1), of prev] a(2,3) sample_parts(6) by simp
  then show ?thesis using a by (simp add: sampleProven_def)
qed



end
