(* ===== verification/Merkle.thy ===== *)
theory Merkle
  imports Load "HOL-Library.Log_Nat"
begin

text \<open>
  The root of a block's transactions, \<open>btcd/blockchain/merkle.go\<close> and \<open>rolling_merkle.go\<close>: the tree stored whole in
  an array, and the rolling store that keeps one root per complete subtree.  Both are compared with the tree built row
  by row.  \<open>None\<close> is an index out of range, or a loop that does not end.
\<close>

unbundle bit_operations_syntax

section \<open>Definitions\<close>

definition WitnessHash :: "hashes \<Rightarrow> MsgTx \<Rightarrow> bytes" where
  "WitnessHash H msg = (if HasWitness msg then DoubleHashRaw H (Serialize msg) else TxHash H msg)"

definition HashMerkleBranches :: "hashes \<Rightarrow> bytes \<Rightarrow> bytes \<Rightarrow> bytes" where
  "HashMerkleBranches H left right = DoubleHashRaw H (left @ right)"

text \<open>The switch both stores have on a transaction and its position.\<close>

definition leafHash :: "hashes \<Rightarrow> bool \<Rightarrow> nat \<Rightarrow> MsgTx \<Rightarrow> bytes" where
  "leafHash H witness i tx =
     (if witness \<and> i = 0 then zeroHash
      else if witness then WitnessHash H tx
      else TxHash H tx)"

text \<open>The source takes the floor of a floating point logarithm, which is exact for every length a block can have.\<close>

definition nextPowerOfTwo :: "nat \<Rightarrow> nat" where
  "nextPowerOfTwo n = (if n AND (n - 1) = 0 then n else 2 ^ floorlog 2 n)"

definition parentHash :: "hashes \<Rightarrow> bytes option \<Rightarrow> bytes option \<Rightarrow> bytes option" where
  "parentHash H left right = (case left of
     None \<Rightarrow> None
   | Some l \<Rightarrow> (case right of
       None \<Rightarrow> Some (HashMerkleBranches H l l)
     | Some r \<Rightarrow> Some (HashMerkleBranches H l r)))"

text \<open>The loop that fills the array, of \<open>t\<close> rounds: round \<open>k\<close> reads at \<open>i = 2 * k\<close> and writes at \<open>offset = nextPoT + k\<close>.\<close>

definition fillParents :: "hashes \<Rightarrow> nat \<Rightarrow> nat \<Rightarrow> bytes option list \<Rightarrow> bytes option list" where
  "fillParents H nextPoT t merkles =
     foldl (\<lambda>merkles k. merkles[nextPoT + k := parentHash H (merkles ! (2 * k)) (merkles ! (2 * k + 1))]) merkles [0 ..< t]"

definition BuildMerkleTreeStore :: "hashes \<Rightarrow> MsgTx list \<Rightarrow> bool \<Rightarrow> bytes option list" where
  "BuildMerkleTreeStore H transactions witness =
     (let nextPoT = nextPowerOfTwo (length transactions);
          arraySize = nextPoT * 2 - 1;
          merkles = map (\<lambda>(i, tx). Some (leafHash H witness i tx)) (enumerate 0 transactions)
                      @ replicate (arraySize - length transactions) None
      in fillParents H nextPoT (nextPoT - 1) merkles)"

record rollingMerkleTreeStore =
  s_roots :: "bytes list"
  s_numLeaves :: nat

definition newRollingMerkleTreeStore :: rollingMerkleTreeStore where
  "newRollingMerkleTreeStore = \<lparr>s_roots = [], s_numLeaves = 0\<rparr>"

function addLoop :: "hashes \<Rightarrow> nat \<Rightarrow> nat \<Rightarrow> bytes list \<Rightarrow> bytes \<Rightarrow> bytes list option" where
  "addLoop H numLeaves h roots newRoot =
     (if odd (numLeaves div 2 ^ h)
      then if roots = [] then None
        else addLoop H numLeaves (Suc h) (butlast roots) (HashMerkleBranches H (last roots) newRoot)
      else Some (roots @ [newRoot]))"
  by pat_completeness auto
termination
proof (relation "measure (\<lambda>(H, n, h, roots, r). n div 2 ^ h)")
  fix n h :: nat
  assume "odd (n div 2 ^ h)"
  moreover have "n div 2 ^ Suc h = n div 2 ^ h div 2" by (simp only: power_Suc2 div_mult2_eq)
  ultimately show "((H, n, Suc h, rs, r), H', n, h, rs', r') \<in> measure (\<lambda>(H, n, h, roots, r). n div 2 ^ h)"
    for H H' :: hashes and rs rs' :: "bytes list" and r r' :: bytes
    by (cases "n div 2 ^ h = 0") (auto simp del: power_Suc)
qed simp

declare addLoop.simps [simp del]

definition store_add :: "hashes \<Rightarrow> bytes \<Rightarrow> rollingMerkleTreeStore \<Rightarrow> rollingMerkleTreeStore option" where
  "store_add H leaf s = Option.bind (addLoop H (s_numLeaves s) 0 (s_roots s) leaf) (\<lambda>roots.
     Some (s\<lparr>s_roots := roots, s_numLeaves := s_numLeaves s + 1\<rparr>))"

fun addLeaves :: "hashes \<Rightarrow> bytes list \<Rightarrow> rollingMerkleTreeStore \<Rightarrow> rollingMerkleTreeStore option" where
  "addLeaves H [] s = Some s"
| "addLeaves H (x # xs) s = Option.bind (store_add H x s) (addLeaves H xs)"

partial_function (option) shiftLoop :: "nat \<Rightarrow> nat \<Rightarrow> nat \<Rightarrow> nat option" where
  "shiftLoop currentLeaves h numLeaves =
     (if even (currentLeaves div 2 ^ h) then shiftLoop currentLeaves (Suc h) (numLeaves div 2) else Some numLeaves)"

partial_function (option) raiseLoop :: "hashes \<Rightarrow> rollingMerkleTreeStore \<Rightarrow> rollingMerkleTreeStore option" where
  "raiseLoop H s =
     (if length (s_roots s) > 1
      then Option.bind (shiftLoop (s_numLeaves s) 0 (s_numLeaves s)) (\<lambda>n.
           Option.bind (store_add H (last (s_roots s)) (s\<lparr>s_numLeaves := n\<rparr>)) (raiseLoop H))
      else Some s)"

definition calcMerkleRoot :: "hashes \<Rightarrow> MsgTx list \<Rightarrow> bool \<Rightarrow> rollingMerkleTreeStore \<Rightarrow> bytes option" where
  "calcMerkleRoot H adds witness s =
     Option.bind (addLeaves H (map (\<lambda>(i, tx). leafHash H witness i tx) (enumerate 0 adds)) s) (\<lambda>s.
     if s_numLeaves s = 1 then (case s_roots s of [] \<Rightarrow> None | r # _ \<Rightarrow> Some r)
     else Option.bind
            (if length adds > 0 \<and> length adds mod 2 \<noteq> 0
             then store_add H (if witness then WitnessHash H (last adds) else TxHash H (last adds)) s
             else Some s) (\<lambda>s.
          Option.bind (raiseLoop H s) (\<lambda>s. case s_roots s of [] \<Rightarrow> None | r # _ \<Rightarrow> Some r)))"

definition CalcMerkleRoot :: "hashes \<Rightarrow> MsgTx list \<Rightarrow> bool \<Rightarrow> bytes option" where
  "CalcMerkleRoot H transactions witness = calcMerkleRoot H transactions witness newRollingMerkleTreeStore"

section \<open>The tree, row by row\<close>

text \<open>The row above: neighbours are joined, and a last one without a neighbour with itself.\<close>

fun rowAbove :: "hashes \<Rightarrow> bytes list \<Rightarrow> bytes list" where
  "rowAbove H [] = []"
| "rowAbove H [x] = [HashMerkleBranches H x x]"
| "rowAbove H (x # y # r) = HashMerkleBranches H x y # rowAbove H r"

lemma length_rowAbove [simp]: "length (rowAbove H xs) = (length xs + 1) div 2"
  by (induction H xs rule: rowAbove.induct) auto

lemma rowAbove_append: "even (length xs) \<Longrightarrow> rowAbove H (xs @ ys) = rowAbove H xs @ rowAbove H ys"
  by (induction H xs rule: rowAbove.induct) auto

lemma rowAbove_Nil [simp]: "rowAbove H xs = [] \<longleftrightarrow> xs = []"
  by (cases "(H, xs)" rule: rowAbove.cases) auto

lemma rowAbove_again: "odd (length xs) \<Longrightarrow> rowAbove H (xs @ [last xs]) = rowAbove H xs"
proof -
  assume "odd (length xs)"
  then obtain ys y where "xs = ys @ [y]" "even (length ys)" by (cases xs rule: rev_cases) auto
  then show ?thesis by (simp add: rowAbove_append)
qed

function topOf :: "hashes \<Rightarrow> bytes list \<Rightarrow> bytes" where
  "topOf H xs = (if length xs \<le> 1 then hd xs else topOf H (rowAbove H xs))"
  by pat_completeness auto
termination by (relation "measure (length \<circ> snd)") auto

declare topOf.simps [simp del]

lemma topOf_rowAbove: "2 \<le> length xs \<Longrightarrow> topOf H (rowAbove H xs) = topOf H xs"
  by (simp add: topOf.simps [of H xs])

lemma topOf_again: "odd (length xs) \<Longrightarrow> 2 \<le> length xs \<Longrightarrow> topOf H (xs @ [last xs]) = topOf H xs"
  using topOf_rowAbove [of xs H] topOf_rowAbove [of "xs @ [last xs]" H] by (simp add: rowAbove_again)

section \<open>The rolling store\<close>

text \<open>The roots of the complete subtrees of a row of leaves, the smallest first.\<close>

function peaks :: "hashes \<Rightarrow> bytes list \<Rightarrow> bytes list" where
  "peaks H xs = (if xs = [] then []
     else if even (length xs) then peaks H (rowAbove H xs)
     else last xs # peaks H (rowAbove H (butlast xs)))"
  by pat_completeness auto
termination by (relation "measure (length \<circ> snd)") (auto elim!: oddE)

declare peaks.simps [simp del]

lemma peaks_empty [simp]: "peaks H [] = []"
  by (subst peaks.simps) simp

lemma peaks_Nil [simp]: "peaks H xs = [] \<longleftrightarrow> xs = []"
proof (induction H xs rule: peaks.induct)
  case (1 H xs)
  then show ?case by (subst peaks.simps) auto
qed

lemma peaks_even: "even (length xs) \<Longrightarrow> peaks H xs = peaks H (rowAbove H xs)"
  by (cases "xs = []") (simp_all add: peaks.simps [of H xs])

lemma peaks_odd: "even (length ys) \<Longrightarrow> peaks H (ys @ [y]) = y # peaks H ys"
  by (subst peaks.simps) (simp add: peaks_even)

lemma addLoop_Suc: "addLoop H n (Suc h) roots x = addLoop H (n div 2) h roots x"
proof (induction H "n div 2" h roots x rule: addLoop.induct)
  case (1 H h roots x)
  have "n div 2 ^ Suc h = n div 2 div 2 ^ h" by (simp add: div_mult2_eq)
  then show ?case using 1 by (subst (1 2) addLoop.simps) auto
qed

text \<open>The leaves of a row of neighbours are counted by the bits of its length: adding a leaf joins it with every complete
  subtree that it completes.\<close>

lemma addLoop_peaks: "addLoop H (length xs) 0 (rev (peaks H xs)) x = Some (rev (peaks H (xs @ [x])))"
proof (induction "length xs" arbitrary: xs x rule: less_induct)
  case less
  show ?case
  proof (cases "even (length xs)")
    case True
    then show ?thesis by (subst addLoop.simps) (simp add: peaks_odd)
  next
    case False
    then obtain ys y where xs: "xs = ys @ [y]" "even (length ys)" by (cases xs rule: rev_cases) auto
    let ?x = "HashMerkleBranches H y x"
    have "addLoop H (length (rowAbove H ys)) 0 (rev (peaks H (rowAbove H ys))) ?x = Some (rev (peaks H (rowAbove H ys @ [?x])))"
      using xs by (intro less) auto
    then have "addLoop H (length xs) 1 (rev (peaks H ys)) ?x = Some (rev (peaks H (rowAbove H (ys @ [y, x]))))"
      using xs by (simp add: addLoop_Suc peaks_even [of ys] rowAbove_append)
    then show ?thesis using xs by (subst addLoop.simps) (simp add: peaks_odd peaks_even [of "ys @ [y, x]"])
  qed
qed

definition holds :: "hashes \<Rightarrow> bytes list \<Rightarrow> rollingMerkleTreeStore" where
  "holds H xs = \<lparr>s_roots = rev (peaks H xs), s_numLeaves = length xs\<rparr>"

lemma holds_sel [simp]: "s_roots (holds H xs) = rev (peaks H xs)" "s_numLeaves (holds H xs) = length xs"
  by (simp_all add: holds_def)

lemma store_add_holds: "store_add H x (holds H xs) = Some (holds H (xs @ [x]))"
  by (simp add: store_add_def addLoop_peaks holds_def)

lemma addLeaves_holds: "addLeaves H ys (holds H xs) = Some (holds H (xs @ ys))"
  by (induction ys arbitrary: xs) (simp_all add: store_add_holds)

lemma shiftLoop_odd: "odd m \<Longrightarrow> shiftLoop (m * 2 ^ (h + k)) h (m * 2 ^ k) = Some m"
proof (induction k arbitrary: h)
  case 0
  then show ?case by (subst shiftLoop.simps) simp
next
  case (Suc k)
  have "m * 2 ^ (h + Suc k) div 2 ^ h = m * 2 ^ Suc k" by (simp add: power_add)
  then show ?case using Suc.IH [OF Suc.prems, of "Suc h"] by (subst shiftLoop.simps) simp
qed

lemma even_two: "even (length xs) \<Longrightarrow> xs \<noteq> [] \<Longrightarrow> 2 \<le> length xs"
  by (cases xs; cases "tl xs") auto

text \<open>Above rows of even length there is one of odd length with the same subtrees.\<close>

lemma odd_row:
  "xs \<noteq> [] \<Longrightarrow> \<exists>k ys. odd (length ys) \<and> length xs = length ys * 2 ^ k \<and> peaks H ys = peaks H xs \<and> topOf H ys = topOf H xs"
proof (induction "length xs" arbitrary: xs rule: less_induct)
  case less
  show ?case
  proof (cases "even (length xs)")
    case True
    then have two: "2 \<le> length xs" using less.prems by (intro even_two)
    then have half: "Suc (length xs) div 2 < length xs" by linarith
    obtain k ys where k: "odd (length ys)" "length (rowAbove H xs) = length ys * 2 ^ k"
      "peaks H ys = peaks H (rowAbove H xs)" "topOf H ys = topOf H (rowAbove H xs)"
      using less.hyps [of "rowAbove H xs"] half two less.prems by auto
    have "length xs = 2 * length (rowAbove H xs)" using True by auto
    then have "length xs = length ys * 2 ^ Suc k" by (simp only: k(2)) simp
    then show ?thesis using k peaks_even [OF True, of H] topOf_rowAbove [OF two, of H] by metis
  next
    case False
    then show ?thesis by (intro exI [of _ 0] exI [of _ xs]) simp
  qed
qed

lemma one_peak: "length (peaks H xs) = 1 \<Longrightarrow> peaks H xs = [topOf H xs]"
proof (induction "length xs" arbitrary: xs rule: less_induct)
  case less
  have ne: "xs \<noteq> []" using less.prems by auto
  show ?case
  proof (cases "even (length xs)")
    case True
    then have two: "2 \<le> length xs" using ne by (intro even_two)
    then show ?thesis using less.hyps [of "rowAbove H xs"] less.prems peaks_even [OF True, of H] topOf_rowAbove [OF two, of H] by auto
  next
    case False
    then obtain ys y where xs: "xs = ys @ [y]" "even (length ys)" by (cases xs rule: rev_cases) auto
    then have "ys = []" using less.prems by (auto simp: peaks_odd)
    then show ?thesis using xs by (simp add: peaks_odd [of "[]", simplified] topOf.simps)
  qed
qed

lemma raiseLoop_top: "even (length xs) \<Longrightarrow> xs \<noteq> [] \<Longrightarrow> \<exists>s. raiseLoop H (holds H xs) = Some s \<and> s_roots s = [topOf H xs]"
proof (induction "length xs" arbitrary: xs rule: less_induct)
  case less
  show ?case
  proof (cases "length (peaks H xs) > 1")
    case False
    then have "length (peaks H xs) = 1" using less.prems(2) by (cases "peaks H xs") auto
    then show ?thesis using one_peak [of H xs] by (subst raiseLoop.simps) simp
  next
    case True
    obtain k ys where ys: "odd (length ys)" "length xs = length ys * 2 ^ k" "peaks H ys = peaks H xs" "topOf H ys = topOf H xs"
      using odd_row [OF less.prems(2)] by blast
    have k: "k > 0" using ys(1,2) less.prems(1) by (cases k) auto
    have "ys \<noteq> []" using ys(1) by auto
    have "length ys \<noteq> 1"
    proof
      assume "length ys = 1"
      then obtain y where "ys = [y]" by (cases ys) auto
      then show False using True ys(3) peaks_odd [of "[]" H y] by simp
    qed
    then have three: "3 \<le> length ys" using ys(1) by presburger
    have "2 * length ys \<le> length xs" using k ys(2) by (cases k) auto
    then have shorter: "length (ys @ [last ys]) < length xs" using three by simp
    have "shiftLoop (length xs) 0 (length xs) = Some (length ys)" using shiftLoop_odd [OF ys(1), of 0 k] ys(2) by simp
    moreover have "last (rev (peaks H xs)) = last ys"
      using ys(1,3) \<open>ys \<noteq> []\<close> peaks.simps [of H ys] by (simp add: last_rev flip: ys(3))
    moreover have "(holds H xs)\<lparr>s_numLeaves := length ys\<rparr> = holds H ys" using ys(3) by (simp add: holds_def)
    ultimately have "raiseLoop H (holds H xs) = raiseLoop H (holds H (ys @ [last ys]))"
      using True by (subst raiseLoop.simps) (simp add: store_add_holds)
    then show ?thesis using less.hyps [OF shorter] ys(1,4) three topOf_again [OF ys(1), of H] by auto
  qed
qed


definition leavesOf :: "hashes \<Rightarrow> bool \<Rightarrow> MsgTx list \<Rightarrow> bytes list" where
  "leavesOf H witness txs = map (\<lambda>(i, tx). leafHash H witness i tx) (enumerate 0 txs)"

lemma length_leavesOf [simp]: "length (leavesOf H witness txs) = length txs" by (simp add: leavesOf_def)

lemma last_leavesOf:
  "2 \<le> length txs \<Longrightarrow> last (leavesOf H witness txs) = (if witness then WitnessHash H (last txs) else TxHash H (last txs))"
  by (cases txs rule: rev_cases) (auto simp: leavesOf_def enumerate_append_eq leafHash_def)

lemma calcMerkleRoot_top:
  assumes "txs \<noteq> []"
  shows "CalcMerkleRoot H txs witness = Some (topOf H (leavesOf H witness txs))"
proof -
  let ?xs = "leavesOf H witness txs"
  have leaves: "addLeaves H (map (\<lambda>(i, tx). leafHash H witness i tx) (enumerate 0 txs)) newRollingMerkleTreeStore = Some (holds H ?xs)"
    using addLeaves_holds [of H ?xs "[]"] by (simp add: holds_def newRollingMerkleTreeStore_def leavesOf_def)
  consider "length txs = 1" | "2 \<le> length txs" "even (length txs)" | "2 \<le> length txs" "odd (length txs)"
    using assms by (cases txs; cases "tl txs") auto
  then show ?thesis
  proof cases
    case 1
    then obtain x where "?xs = [x]" by (metis length_leavesOf length_Suc_conv One_nat_def length_0_conv)
    then show ?thesis using 1 leaves peaks_odd [of "[]" H x]
      by (simp add: CalcMerkleRoot_def calcMerkleRoot_def topOf.simps)
  next
    case 2
    then obtain s where "raiseLoop H (holds H ?xs) = Some s" "s_roots s = [topOf H ?xs]"
      using raiseLoop_top [of ?xs H] by (metis length_leavesOf length_0_conv assms)
    then show ?thesis using 2 leaves by (simp add: CalcMerkleRoot_def calcMerkleRoot_def even_iff_mod_2_eq_zero)
  next
    case 3
    have "store_add H (last ?xs) (holds H ?xs) = Some (holds H (?xs @ [last ?xs]))" by (rule store_add_holds)
    moreover obtain s where "raiseLoop H (holds H (?xs @ [last ?xs])) = Some s" "s_roots s = [topOf H ?xs]"
      using raiseLoop_top [of "?xs @ [last ?xs]" H] 3 topOf_again [of ?xs H] by auto
    ultimately show ?thesis using 3 leaves assms
      by (simp add: CalcMerkleRoot_def calcMerkleRoot_def last_leavesOf odd_iff_mod_2_eq_one)
  qed
qed

section \<open>The tree in an array\<close>

text \<open>The part of the array still to be read, as a queue: two nodes leave it at the front and their parent joins at the
  end.\<close>

definition queueStep :: "hashes \<Rightarrow> bytes option list \<Rightarrow> bytes option list" where
  "queueStep H q = drop 2 q @ [parentHash H (q ! 0) (q ! 1)]"

fun optRow :: "hashes \<Rightarrow> bytes option list \<Rightarrow> bytes option list" where
  "optRow H (x # y # r) = parentHash H x y # optRow H r"
| "optRow H _ = []"

lemma queue_row: "(queueStep H ^^ k) (xs @ ys) = ys @ optRow H xs" if "length xs = 2 * k"
  using that
proof (induction k arbitrary: xs ys)
  case (Suc k)
  then obtain x y r where xs: "xs = x # y # r" "length r = 2 * k" by (cases xs; cases "tl xs") auto
  have "(queueStep H ^^ Suc k) (xs @ ys) = (queueStep H ^^ k) (r @ (ys @ [parentHash H x y]))"
    by (simp add: funpow_swap1 xs queueStep_def)
  then show ?case using Suc.IH [OF xs(2)] by (simp add: xs)
qed simp

definition padded :: "bytes list \<Rightarrow> nat \<Rightarrow> bytes option list" where
  "padded xs n = map Some xs @ replicate (n - length xs) None"

lemma optRow_none: "optRow H (replicate n None) = replicate (n div 2) None"
proof (induction n rule: less_induct)
  case (less n)
  consider "n = 0" | "n = 1" | m where "n = Suc (Suc m)" by (metis One_nat_def not0_implies_Suc)
  then show ?case using less by cases (auto simp: parentHash_def)
qed

lemma optRow_padded: "length xs \<le> 2 * n \<Longrightarrow> optRow H (padded xs (2 * n)) = padded (rowAbove H xs) n"
proof (induction H xs arbitrary: n rule: rowAbove.induct)
  case (1 H)
  then show ?case by (simp add: padded_def optRow_none)
next
  case (2 H x)
  then obtain m where "n = Suc m" by (cases n) auto
  then show ?case by (simp add: padded_def optRow_none parentHash_def)
next
  case (3 H x y r)
  then obtain m where "n = Suc m" by (cases n) auto
  then show ?case using 3 by (simp add: padded_def parentHash_def)
qed

lemma queue_top:
  "length xs \<le> 2 ^ k \<Longrightarrow> 2 ^ k < 2 * length xs \<Longrightarrow> (queueStep H ^^ (2 ^ k - 1)) (padded xs (2 ^ k)) = [Some (topOf H xs)]"
proof (induction k arbitrary: xs)
  case 0
  then obtain x where "xs = [x]" by (cases xs) auto
  then show ?case by (simp add: padded_def topOf.simps)
next
  case (Suc k)
  have two: "2 \<le> length xs" using Suc.prems(2) one_le_power [of "2 :: nat" k] by (simp only: power_Suc) linarith
  have "(queueStep H ^^ 2 ^ k) (padded xs (2 ^ Suc k)) = padded (rowAbove H xs) (2 ^ k)"
    using queue_row [of "padded xs (2 ^ Suc k)" "2 ^ k" H "[]"] Suc.prems(1) optRow_padded [of xs "2 ^ k" H] by (simp add: padded_def)
  moreover have "(queueStep H ^^ (2 ^ k - 1)) (padded (rowAbove H xs) (2 ^ k)) = [Some (topOf H (rowAbove H xs))]"
    using Suc.prems by (intro Suc.IH) auto
  moreover have "(2 :: nat) ^ Suc k - 1 = (2 ^ k - 1) + 2 ^ k" by simp
  ultimately show ?case by (simp only: funpow_add comp_apply topOf_rowAbove [OF two])
qed

text \<open>The array after \<open>t\<close> rounds of the loop holds the queue after \<open>t\<close> steps.\<close>

lemma array_queue:
  assumes "length a = 2 * n - 1" "t \<le> n - 1"
  shows "length (fillParents H n t a) = 2 * n - 1 \<and> drop (2 * t) (take (n + t) (fillParents H n t a)) = (queueStep H ^^ t) (take n a)"
  using assms(2)
proof (induction t)
  case 0
  then show ?case using assms(1) by (simp add: fillParents_def)
next
  case (Suc t)
  obtain m where m: "m = fillParents H n t a" by simp
  obtain p where p: "p = parentHash H (m ! (2 * t)) (m ! (2 * t + 1))" by simp
  have next_m: "fillParents H n (Suc t) a = m[n + t := p]" by (simp add: fillParents_def m p)
  have l: "length m = 2 * n - 1" and q: "drop (2 * t) (take (n + t) m) = (queueStep H ^^ t) (take n a)"
    using Suc by (simp_all add: m)
  have in_range: "n + t < length m" "2 * t + 1 < n + t" using Suc.prems l by auto
  have "take (n + Suc t) (m[n + t := p]) = take (n + t) m @ [p]"
    using in_range by (simp add: take_Suc_conv_app_nth)
  then have "drop (2 * Suc t) (take (n + Suc t) (m[n + t := p])) = drop 2 (drop (2 * t) (take (n + t) m)) @ [p]"
    using in_range by simp
  moreover have "p = parentHash H (drop (2 * t) (take (n + t) m) ! 0) (drop (2 * t) (take (n + t) m) ! 1)"
    using in_range by (simp add: p)
  ultimately have "drop (2 * Suc t) (take (n + Suc t) (m[n + t := p])) = queueStep H ((queueStep H ^^ t) (take n a))"
    unfolding q queueStep_def [of H "(queueStep H ^^ t) (take n a)"] by simp
  then show ?case using l by (simp add: next_m)
qed

lemma and_pred_power: "0 < n \<Longrightarrow> n AND (n - 1) = 0 \<Longrightarrow> \<exists>k. n = (2 :: nat) ^ k"
proof (induction n rule: less_induct)
  case (less n)
  have r: "n AND (n - 1) = of_bool (odd n \<and> odd (n - 1)) + 2 * ((n div 2) AND ((n - 1) div 2))" by (rule and_rec)
  show ?case
  proof (cases "even n")
    case True
    then obtain m where m: "n = 2 * m" by (elim evenE)
    then have "(n - 1) div 2 = m - 1" using less.prems(1) by linarith
    then have "m AND (m - 1) = 0" using r less.prems m by simp
    then obtain k where "m = 2 ^ k" using less.IH [of m] less.prems(1) m by auto
    then show ?thesis using m by (intro exI [of _ "Suc k"]) simp
  next
    case False
    then have "(n - 1) div 2 = n div 2" by (auto elim!: oddE)
    then have "n div 2 = 0" using r less.prems by simp
    then show ?thesis using False by (intro exI [of _ 0]) (cases n; auto)
  qed
qed

lemma power_and_pred: "(2 :: nat) ^ k AND (2 ^ k - 1) = 0"
  unfolding mask_eq_exp_minus_1 [symmetric] take_bit_eq_mask [symmetric] by (simp add: take_bit_eq_mod)

lemma nextPowerOfTwo_power:
  assumes "0 < n"
  obtains k where "nextPowerOfTwo n = 2 ^ k" "n \<le> 2 ^ k" "2 ^ k < 2 * n"
proof (cases "n AND (n - 1) = 0")
  case True
  then show ?thesis using that and_pred_power [OF assms True] assms by (auto simp: nextPowerOfTwo_def)
next
  case False
  have b: "2 ^ (floorlog 2 n - 1) \<le> n" "n < 2 ^ floorlog 2 n" using floorlog_bounds [of n 2] assms by auto
  moreover have "0 < floorlog 2 n" using b(2) assms by (cases "floorlog 2 n") auto
  moreover have "n \<noteq> 2 ^ (floorlog 2 n - 1)" using False power_and_pred by metis
  ultimately have "2 ^ floorlog 2 n < 2 * n" by (cases "floorlog 2 n") auto
  then show ?thesis using that b False by (auto simp: nextPowerOfTwo_def)
qed

lemma tree_store_top:
  assumes "txs \<noteq> []"
  shows "BuildMerkleTreeStore H txs witness \<noteq> []" "last (BuildMerkleTreeStore H txs witness) = Some (topOf H (leavesOf H witness txs))"
proof -
  obtain k where k: "nextPowerOfTwo (length txs) = 2 ^ k" "length txs \<le> 2 ^ k" "2 ^ k < 2 * length txs"
    using nextPowerOfTwo_power [of "length txs"] assms by auto
  let ?n = "2 ^ k :: nat" and ?xs = "leavesOf H witness txs"
  let ?a = "map Some ?xs @ replicate (?n * 2 - 1 - length txs) None"
  let ?m = "fillParents H ?n (?n - 1) ?a"
  have m: "BuildMerkleTreeStore H txs witness = ?m"
    by (simp add: BuildMerkleTreeStore_def Let_def k(1) leavesOf_def comp_def case_prod_unfold)
  have one: "1 \<le> ?n" by simp
  have "length ?a = 2 * ?n - 1" using k(2) one by (simp only: length_append length_map length_replicate length_leavesOf)
  moreover have "take ?n ?a = padded ?xs ?n" using k(2) one by (simp add: padded_def min_def)
  moreover have "(queueStep H ^^ (?n - 1)) (padded ?xs ?n) = [Some (topOf H ?xs)]" using k(2,3) by (intro queue_top) simp_all
  ultimately have q: "length ?m = 2 * ?n - 1" "drop (2 * (?n - 1)) (take (?n + (?n - 1)) ?m) = [Some (topOf H ?xs)]"
    using array_queue [of ?a ?n "?n - 1" H] by (simp_all only: le_refl)
  then show ne: "BuildMerkleTreeStore H txs witness \<noteq> []" unfolding m using one by auto
  have "take (?n + (?n - 1)) ?m = ?m" using q(1) one by (intro take_all) linarith
  then have "drop (2 * (?n - 1)) ?m = [Some (topOf H ?xs)]" using q(2) by simp
  then have "last ?m = last [Some (topOf H ?xs)]" using q(1) one by (metis last_drop list.distinct(1) drop_eq_Nil2 not_le)
  then show "last (BuildMerkleTreeStore H txs witness) = Some (topOf H ?xs)" unfolding m by simp
qed

section \<open>Properties\<close>

text \<open>C39: the rolling store returns a root for every block that has a transaction, and it is the root at the end of the
  array of the whole tree, with or without witnesses.\<close>

theorem rolling_root_is_tree_root:
  assumes "transactions \<noteq> []"
  shows "\<exists>root. CalcMerkleRoot H transactions witness = Some root \<and> last (BuildMerkleTreeStore H transactions witness) = Some root"
  using calcMerkleRoot_top [OF assms, of H witness] tree_store_top(2) [OF assms, of H witness] by simp

theorem rolling_root_is_tree_root_witness:
  "\<exists>root. CalcMerkleRoot sampleHashes [sampleTx, sampleTx, sampleTx] True = Some root
     \<and> last (BuildMerkleTreeStore sampleHashes [sampleTx, sampleTx, sampleTx] True) = Some root"
  by (rule rolling_root_is_tree_root) simp

end
