(* ===== verification/Blocks.thy ===== *)
theory Blocks
  imports Merkle Auth
begin

text \<open>
  Blocks of DogecoinVM: their format (\<open>btcd/wire/blockheader.go\<close>, \<open>msgblock.go\<close>), the checks of a block that need no
  chain (\<open>btcd/blockchain/validate.go\<close>), and the height a block carries in its coinbase, from the builder
  (\<open>btcd/mining/mining.go\<close>) to the reader.  Times are nanoseconds.
\<close>

section \<open>Format\<close>

record BlockHeader =
  h_Version :: int
  PrevBlock :: bytes
  MerkleRoot :: bytes
  Timestamp :: int
  Bits :: "32 word"
  Nonce :: "32 word"

record MsgBlock =
  Header :: BlockHeader
  Transactions :: "MsgTx list"

definition blockHeaderLen :: nat where "blockHeaderLen = 80"
definition maxTxPerBlock :: nat where "maxTxPerBlock = 4000000 div 10 + 1"

text \<open>Go's conversions to 32 bits keep the low bits.\<close>

definition i32 :: "int \<Rightarrow> int" where
  "i32 x = (x + 2 ^ 31) mod 2 ^ 32 - 2 ^ 31"

definition writeBlockHeaderBuf :: "BlockHeader \<Rightarrow> bytes" where
  "writeBlockHeaderBuf bh = le_bytes 4 (nat (h_Version bh mod 2 ^ 32)) @ PrevBlock bh @ MerkleRoot bh
     @ le_bytes 4 (nat (unixOf (Timestamp bh) mod 2 ^ 32)) @ le_bytes 4 (unat (Bits bh)) @ le_bytes 4 (unat (Nonce bh))"

definition BlockHash :: "hashes \<Rightarrow> BlockHeader \<Rightarrow> bytes" where
  "BlockHash H h = DoubleHashRaw H (writeBlockHeaderBuf h)"

definition readBlockHeaderBuf :: "BlockHeader reader" where
  "readBlockHeaderBuf st =
     bindr (readFull 4 st) (\<lambda>(version, st).
     bindr (readFull HashSize st) (\<lambda>(prev, st).
     bindr (readFull HashSize st) (\<lambda>(merkle, st).
     bindr (readFull 4 st) (\<lambda>(timestamp, st).
     bindr (readUint32 st) (\<lambda>(bits, st).
     bindr (readUint32 st) (\<lambda>(nonce, st).
     Inr (\<lparr>h_Version = i32 (int (le_val version)), PrevBlock = prev, MerkleRoot = merkle,
            Timestamp = int (le_val timestamp) * second, Bits = bits, Nonce = nonce\<rparr>, st)))))))"

definition MsgBlock_BtcEncode :: "MessageEncoding \<Rightarrow> MsgBlock \<Rightarrow> bytes" where
  "MsgBlock_BtcEncode enc msg = writeBlockHeaderBuf (Header msg) @ WriteVarIntBuf (length (Transactions msg))
     @ concat (map (btcEncode enc) (Transactions msg))"

text \<open>Every transaction of a block is read with the whole script slab.\<close>

definition readBlockTx :: "MessageEncoding \<Rightarrow> MsgTx reader" where
  "readBlockTx enc = (\<lambda>(s, r). bindr (btcDecode enc (scriptSlabSize, r)) (\<lambda>(tx, s', r'). Inr (tx, s, r')))"

datatype rerr =
    BadEncoding werr | TooManyTransactions | IndexPanic
  | NoTxInputs | NoTxOutputs | TxTooBig | BadTxOutValue | DuplicateTxInputs | BadCoinbaseScriptLen | BadTxInput
  | InvalidTime | TimeTooNew | NoTransactions | BlockTooBig | FirstTxNotCoinbase | MultipleCoinbases | BadMerkleRoot
  | DuplicateTx | TooManySigOps
  | MissingCoinbaseHeight | BadCoinbaseHeight | BadScript serr
  | MissingTxOut | ImmatureSpend | SpendTooHigh | BadFees | BadCoinbaseValue | BadPegReserve | MissingInputAssert
  | PrevBlockNotBest | BlockVersionTooOld | UnfinalizedTx | UnexpectedWitness | DuplicateBlock | OtherRule

definition wireErr :: "werr + 'a \<Rightarrow> rerr + 'a" where
  "wireErr r = (case r of Inl e \<Rightarrow> Inl (BadEncoding e) | Inr x \<Rightarrow> Inr x)"

definition MsgBlock_BtcDecode :: "MessageEncoding \<Rightarrow> bytes \<Rightarrow> rerr + MsgBlock" where
  "MsgBlock_BtcDecode enc r =
     bindr (wireErr (readBlockHeaderBuf (scriptSlabSize, r))) (\<lambda>(header, st).
     bindr (wireErr (ReadVarIntBuf st)) (\<lambda>(txCount, st).
     if txCount > maxTxPerBlock then Inl TooManyTransactions
     else bindr (wireErr (readMany (readBlockTx enc) txCount st)) (\<lambda>(txs, st).
       Inr \<lparr>Header = header, Transactions = txs\<rparr>)))"

definition MsgBlock_SerializeSizeStripped :: "MsgBlock \<Rightarrow> nat" where
  "MsgBlock_SerializeSizeStripped msg = foldl (\<lambda>n tx. n + SerializeSizeStripped tx)
     (blockHeaderLen + VarIntSerializeSize (length (Transactions msg))) (Transactions msg)"

section \<open>Limits\<close>

definition MaxSatoshi :: int where "MaxSatoshi = 10000000000 * 100000000"
definition MaxTimeOffsetSeconds :: int where "MaxTimeOffsetSeconds = 2 * 60 * 60"
definition MaxBlockBaseSize :: nat where "MaxBlockBaseSize = 1000000"
definition MaxBlockSigOpsCost :: int where "MaxBlockSigOpsCost = 80000"
definition WitnessScaleFactor :: int where "WitnessScaleFactor = 4"
definition MinCoinbaseScriptLen :: nat where "MinCoinbaseScriptLen = 2"
definition MaxCoinbaseScriptLen :: nat where "MaxCoinbaseScriptLen = 100"
definition MaxPubKeysPerMultiSig :: int where "MaxPubKeysPerMultiSig = 20"
definition OP_CHECKSIGVERIFY :: byte where "OP_CHECKSIGVERIFY = 0xad"
definition OP_CHECKMULTISIGVERIFY :: byte where "OP_CHECKMULTISIGVERIFY = 0xaf"
definition OP_INVALIDOPCODE :: byte where "OP_INVALIDOPCODE = 0xff"

section \<open>Sanity of a transaction\<close>

definition isNullOutpoint :: "OutPoint \<Rightarrow> bool" where
  "isNullOutpoint op = (Index op = 0xffffffff \<and> Hash op = zeroHash)"

definition IsCoinBaseTx :: "MsgTx \<Rightarrow> bool" where
  "IsCoinBaseTx tx = (case TxIn tx of
     [ti] \<Rightarrow> \<not> (Index (PreviousOutPoint ti) \<noteq> 0xffffffff \<or> Hash (PreviousOutPoint ti) \<noteq> zeroHash)
   | _ \<Rightarrow> False)"

fun sanityOuts :: "int \<Rightarrow> TxOut list \<Rightarrow> rerr + unit" where
  "sanityOuts tot [] = Inr ()"
| "sanityOuts tot (out # outs) =
     (if Value out < 0 then Inl BadTxOutValue
      else if Value out > MaxSatoshi then Inl BadTxOutValue
      else let tot = i64 (tot + Value out) in
        if tot < 0 then Inl BadTxOutValue
        else if tot > MaxSatoshi then Inl BadTxOutValue
        else sanityOuts tot outs)"

definition CheckTransactionSanity :: "MsgTx \<Rightarrow> rerr + unit" where
  "CheckTransactionSanity tx =
     bindr (guardr (TxIn tx \<noteq> []) NoTxInputs) (\<lambda>_.
     bindr (guardr (TxOut tx \<noteq> []) NoTxOutputs) (\<lambda>_.
     bindr (guardr (SerializeSizeStripped tx \<le> MaxBlockBaseSize) TxTooBig) (\<lambda>_.
     bindr (sanityOuts 0 (TxOut tx)) (\<lambda>_.
     bindr (guardr (distinct (map PreviousOutPoint (TxIn tx))) DuplicateTxInputs) (\<lambda>_.
     if IsCoinBaseTx tx
     then let slen = length (SignatureScript (hd (TxIn tx))) in
       guardr (\<not> (slen < MinCoinbaseScriptLen \<or> slen > MaxCoinbaseScriptLen)) BadCoinbaseScriptLen
     else guardr (\<not> list_ex (\<lambda>ti. isNullOutpoint (PreviousOutPoint ti)) (TxIn tx)) BadTxInput)))))"

section \<open>Signature operations\<close>

function countSigOpsV0 :: "bool \<Rightarrow> byte \<Rightarrow> bytes \<Rightarrow> int" where
  "countSigOpsV0 precise prevOp r = (case Next r of
     Some (Inr (op, d, rest)) \<Rightarrow>
       (if op = OP_CHECKSIG \<or> op = OP_CHECKSIGVERIFY then 1
        else if op = OP_CHECKMULTISIG \<or> op = OP_CHECKMULTISIGVERIFY
          then if precise \<and> prevOp \<ge> OP_1 \<and> prevOp \<le> OP_16 then int (AsSmallInt prevOp) else MaxPubKeysPerMultiSig
        else 0) + countSigOpsV0 precise op rest
   | _ \<Rightarrow> 0)"
  by pat_completeness auto
termination by (relation "measure (\<lambda>(p, op, r). length r)") (auto dest: Next_shorter)

declare countSigOpsV0.simps [simp del]

definition GetSigOpCount :: "bytes \<Rightarrow> int" where
  "GetSigOpCount scr = countSigOpsV0 False OP_INVALIDOPCODE scr"

definition CountSigOps :: "MsgTx \<Rightarrow> int" where
  "CountSigOps tx = sum_list (map (GetSigOpCount \<circ> SignatureScript) (TxIn tx)) + sum_list (map (GetSigOpCount \<circ> PkScript) (TxOut tx))"

fun sigOpsWithin :: "int \<Rightarrow> MsgTx list \<Rightarrow> rerr + unit" where
  "sigOpsWithin tot [] = Inr ()"
| "sigOpsWithin tot (tx # txs) = (let sum = i64 (tot + CountSigOps tx * WitnessScaleFactor) in
     if sum < tot \<or> sum > MaxBlockSigOpsCost then Inl TooManySigOps else sigOpsWithin sum txs)"

section \<open>Sanity of a block\<close>

text \<open>\<open>adjusted\<close> is the time of the node's time source.  There is no proof of work to check.\<close>

definition CheckBlockHeaderSanity :: "BlockHeader \<Rightarrow> int \<Rightarrow> rerr + unit" where
  "CheckBlockHeaderSanity header adjusted =
     bindr (guardr (Timestamp header = unixOf (Timestamp header) * second) InvalidTime) (\<lambda>_.
     guardr (\<not> Timestamp header > adjusted + second * MaxTimeOffsetSeconds) TimeTooNew)"

definition checkBlockSanity :: "hashes \<Rightarrow> MsgBlock \<Rightarrow> int \<Rightarrow> rerr + unit" where
  "checkBlockSanity H block adjusted = (let txs = Transactions block in
     bindr (CheckBlockHeaderSanity (Header block) adjusted) (\<lambda>_.
     bindr (guardr (length txs \<noteq> 0) NoTransactions) (\<lambda>_.
     bindr (guardr (\<not> length txs > MaxBlockBaseSize) BlockTooBig) (\<lambda>_.
     bindr (guardr (\<not> MsgBlock_SerializeSizeStripped block > MaxBlockBaseSize) BlockTooBig) (\<lambda>_.
     bindr (guardr (IsCoinBaseTx (hd txs)) FirstTxNotCoinbase) (\<lambda>_.
     bindr (guardr (\<not> list_ex IsCoinBaseTx (tl txs)) MultipleCoinbases) (\<lambda>_.
     bindr (collect (map CheckTransactionSanity txs)) (\<lambda>_.
     bindr (guardr (CalcMerkleRoot H txs False = Some (MerkleRoot (Header block))) BadMerkleRoot) (\<lambda>_.
     bindr (guardr (distinct (map (TxHash H) txs)) DuplicateTx) (\<lambda>_.
     sigOpsWithin 0 txs))))))))))"

section \<open>The height in the coinbase\<close>

definition CoinbaseFlags :: string where "CoinbaseFlags = ''/P2SH/btcd/''"

definition standardCoinbaseScript :: "int \<Rightarrow> 64 word \<Rightarrow> serr + bytes" where
  "standardCoinbaseScript nextBlockHeight extraNonce =
     Script_of (AddData (textBytes CoinbaseFlags) (AddInt64 (sint extraNonce) (AddInt64 nextBlockHeight NewScriptBuilder)))"

definition compareScript :: "int \<Rightarrow> bytes \<Rightarrow> rerr + unit" where
  "compareScript height scr = (case Script_of (AddInt64 height NewScriptBuilder) of
     Inl e \<Rightarrow> Inl (BadScript e)
   | Inr scriptHeight \<Rightarrow> guardr (take (length scriptHeight) scr = scriptHeight) BadCoinbaseHeight)"

definition ExtractCoinbaseHeight :: "MsgTx \<Rightarrow> rerr + int" where
  "ExtractCoinbaseHeight coinbaseTx = (case TxIn coinbaseTx of
     [] \<Rightarrow> Inl IndexPanic
   | ti # _ \<Rightarrow> let sigScript = SignatureScript ti in
       if length sigScript < 1 then Inl MissingCoinbaseHeight
       else let opcode = hd sigScript in
         if opcode = OP_0 then Inr 0
         else if opcode \<ge> OP_1 \<and> opcode \<le> OP_16 then Inr (int (unat (opcode - (OP_1 - 1))))
         else let serializedLen = unat opcode in
           if length (tl sigScript) < serializedLen then Inl MissingCoinbaseHeight
           else let serializedHeightBytes = take 4 (take serializedLen (tl sigScript) @ replicate 4 0);
                    serializedHeight = i32 (int (le_val serializedHeightBytes)) in
             bindr (compareScript serializedHeight sigScript) (\<lambda>_. Inr serializedHeight))"

definition CheckSerializedHeight :: "MsgTx \<Rightarrow> int \<Rightarrow> rerr + unit" where
  "CheckSerializedHeight coinbaseTx wantHeight = bindr (ExtractCoinbaseHeight coinbaseTx) (\<lambda>serializedHeight.
     guardr (serializedHeight = wantHeight) BadCoinbaseHeight)"

section \<open>Reading back what was written\<close>

lemma le_val_append_0: "le_val (bs @ replicate n 0) = le_val bs"
  by (induction bs) (simp_all, induction n, simp_all)

lemma magnitude_val: "le_val (magnitude n) = n"
proof (induction n rule: magnitude.induct)
  case (1 n)
  then show ?case by (subst magnitude.simps) (auto simp: unat_of_nat)
qed

lemma magnitude_length: "n < 256 ^ k \<Longrightarrow> length (magnitude n) \<le> k"
proof (induction k arbitrary: n)
  case (Suc k)
  then have "n div 256 < 256 ^ k" by (simp add: less_mult_imp_div_less mult.commute)
  then show ?case using Suc.IH [of "n div 256"] by (subst magnitude.simps) auto
qed (simp add: magnitude.simps)

lemma le_val_snoc: "le_val (bs @ [b]) = le_val bs + 256 ^ length bs * unat b"
  by (induction bs) (simp_all add: algebra_simps)

lemma height_bytes:
  assumes "16 < h" "h < 2 ^ 31"
  obtains bs where "scriptNum_Bytes h = Some bs" "bs \<noteq> []" "length bs \<le> 4" "le_val bs = nat h" "unat (last bs) < 128"
proof -
  let ?m = "magnitude (nat h)"
  have ne: "?m \<noteq> []" using assms(1) by (subst magnitude.simps) simp
  have v: "le_val ?m = nat h" by (rule magnitude_val)
  have l: "length ?m \<le> 4" using assms by (intro magnitude_length) simp
  have "length ?m < 4" if "128 \<le> unat (last ?m)"
  proof (rule ccontr)
    assume "\<not> length ?m < 4"
    then have "length (butlast ?m) = 3" using l by simp
    then have "128 * 256 ^ 3 \<le> le_val ?m" using le_val_snoc [of "butlast ?m" "last ?m"] ne that by simp
    then show False using v assms by simp
  qed
  then show ?thesis using that ne v l assms le_val_append_0 [of ?m 1]
    by (cases "unat (last ?m) \<ge> 128") (auto simp: scriptNum_Bytes_def Let_def)
qed

lemma OP_small: "1 \<le> h \<Longrightarrow> h \<le> 16 \<Longrightarrow> unat (OP_1 - 1 + word_of_int h) = nat h + 80" for h :: int
proof -
  assume h: "1 \<le> h" "h \<le> 16"
  obtain n where n: "h = int n" "n \<le> 16" using h by (intro that [of "nat h"]) auto
  have "OP_1 - 1 + word_of_int h = (word_of_nat (80 + n) :: byte)" by (simp add: n OP_1_def)
  then have "unat (OP_1 - 1 + word_of_int h) = unat (word_of_nat (80 + n) :: byte)" by (rule arg_cong)
  then show ?thesis using n by (simp only: unat_of_nat) simp
qed

text \<open>The script of a height reads back as the height, whatever follows it.\<close>

lemma height_script:
  assumes "0 \<le> h" "h < 2 ^ 31"
  obtains hs where "AddInt64 h NewScriptBuilder = \<lparr>script = hs, err = None\<rparr>" "hs \<noteq> []"
    "\<And>tx ti tis rest. TxIn tx = ti # tis \<Longrightarrow> SignatureScript ti = hs @ rest \<Longrightarrow> ExtractCoinbaseHeight tx = Inr h"
proof -
  consider "h = 0" | "1 \<le> h" "h \<le> 16" | "16 < h" using assms by linarith
  then show ?thesis
  proof cases
    case 1
    then show ?thesis
      by (intro that [of "[OP_0]"]) (simp_all add: AddInt64_def NewScriptBuilder_def MaxScriptSize_def ExtractCoinbaseHeight_def Let_def)
  next
    case 2
    let ?op = "OP_1 - 1 + word_of_int h"
    have op: "unat ?op = nat h + 80" using OP_small [OF 2] .
    have "?op \<noteq> OP_0" using op by (auto simp: OP_0_def)
    moreover have "OP_1 \<le> ?op" "?op \<le> OP_16" using op 2 by (simp_all add: word_le_nat_alt OP_1_def OP_16_def)
    moreover have "unat (?op - (OP_1 - 1)) = nat h"
    proof -
      have "?op - (OP_1 - 1) = word_of_nat (nat h)" using 2 by simp
      then show ?thesis using 2 by (simp only: unat_of_nat) simp
    qed
    ultimately show ?thesis using 2
      by (intro that [of "[?op]"]) (simp_all add: AddInt64_def NewScriptBuilder_def MaxScriptSize_def ExtractCoinbaseHeight_def Let_def)
  next
    case 3
    obtain bs where bs: "scriptNum_Bytes h = Some bs" "bs \<noteq> []" "length bs \<le> 4" "le_val bs = nat h" "unat (last bs) < 128"
      using height_bytes [OF 3 assms(2)] .
    let ?op = "word_of_nat (length bs) :: byte"
    have op: "unat ?op = length bs" using bs(3) by (simp add: unat_of_nat)
    have one: "\<not> hd bs \<le> 16 \<and> hd bs \<noteq> 0x81 \<and> hd bs \<noteq> 0" if l: "length bs = 1"
    proof -
      obtain b where b: "bs = [b]" using l by (cases bs) auto
      then have "16 < unat b" "unat b < 128" using bs(4,5) 3 by auto
      then show ?thesis using b by (auto simp: word_le_nat_alt)
    qed
    have push: "pushBytes bs = ?op # bs" using one bs(2,3) by (auto simp: pushBytes_def Let_def)
    have add: "AddInt64 h NewScriptBuilder = \<lparr>script = ?op # bs, err = None\<rparr>"
      using 3 bs(1,3) by (simp add: AddInt64_def NewScriptBuilder_def AddData_def addData_def push MaxScriptSize_def MaxScriptElementSize_def canonicalDataSize_def Let_def)
    have small: "?op \<noteq> OP_0" "\<not> OP_1 \<le> ?op" using op bs(2,3) by (auto simp: OP_0_def OP_1_def word_le_nat_alt)
    have "take 4 (bs @ replicate 4 0) = bs @ replicate (4 - length bs) 0" using bs(3) by simp
    then have "i32 (int (le_val (take 4 (bs @ replicate 4 0)))) = h"
      using assms bs(4) by (simp add: le_val_append_0 i32_def)
    then show ?thesis
      by (intro that [of "?op # bs"])
        (simp_all add: add ExtractCoinbaseHeight_def Let_def small op compareScript_def Script_of_def)
  qed
qed

lemma AddInt64_extends: "\<exists>x. script (AddInt64 v b) = script b @ x"
  by (auto simp: AddInt64_def AddData_def addData_def split: option.split)

lemma AddData_extends: "\<exists>x. script (AddData d b) = script b @ x"
  by (auto simp: AddData_def addData_def)

lemma built_height:
  assumes "standardCoinbaseScript h nonce = Inr scr" "0 \<le> h" "h < 2 ^ 31" "TxIn tx = ti # tis" "SignatureScript ti = scr"
  shows "ExtractCoinbaseHeight tx = Inr h"
proof -
  obtain hs where hs: "AddInt64 h NewScriptBuilder = \<lparr>script = hs, err = None\<rparr>"
    "\<And>tx ti tis rest. TxIn tx = ti # tis \<Longrightarrow> SignatureScript ti = hs @ rest \<Longrightarrow> ExtractCoinbaseHeight tx = Inr h"
    using height_script [OF assms(2,3)] by metis
  have "scr = script (AddData (textBytes CoinbaseFlags) (AddInt64 (sint nonce) (AddInt64 h NewScriptBuilder)))"
    using assms(1) by (auto simp: standardCoinbaseScript_def Script_of_def split: option.splits)
  then obtain rest where "scr = hs @ rest"
    using AddData_extends AddInt64_extends by (metis append.assoc hs(1) ScriptBuilder.select_convs(1))
  then show ?thesis using hs(2) assms(4,5) by simp
qed

section \<open>Reading back a block\<close>

definition wf_BlockHeader :: "BlockHeader \<Rightarrow> bool" where
  "wf_BlockHeader h \<longleftrightarrow> - (2 ^ 31) \<le> h_Version h \<and> h_Version h < 2 ^ 31 \<and> length (PrevBlock h) = HashSize \<and> length (MerkleRoot h) = HashSize
     \<and> 0 \<le> Timestamp h \<and> unixOf (Timestamp h) < 2 ^ 32 \<and> Timestamp h = unixOf (Timestamp h) * second"

definition wf_MsgBlock :: "MsgBlock \<Rightarrow> bool" where
  "wf_MsgBlock b \<longleftrightarrow> wf_BlockHeader (Header b) \<and> length (Transactions b) \<le> maxTxPerBlock
     \<and> list_all (\<lambda>tx. wf_MsgTx tx \<and> TxIn tx \<noteq> []) (Transactions b)"

interpretation block_tx: codec "btcEncode WitnessEncoding" "readBlockTx WitnessEncoding" "\<lambda>tx. wf_MsgTx tx \<and> TxIn tx \<noteq> []" "\<lambda>_. 0"
proof
  fix tx s r
  assume tx: "wf_MsgTx tx \<and> TxIn tx \<noteq> []"
  have "\<exists>s'. btcDecode WitnessEncoding (scriptSlabSize, btcEncode WitnessEncoding tx @ r) = Inr (tx, s', r)"
    using tx btcDecode_witness [of tx r] btcDecode_plain [of tx WitnessEncoding r] by (cases "HasWitness tx") auto
  then show "readBlockTx WitnessEncoding (s, btcEncode WitnessEncoding tx @ r) = Inr (tx, s - 0, r)"
    by (auto simp: readBlockTx_def)
qed

lemma i32_mod: "- (2 ^ 31) \<le> v \<Longrightarrow> v < 2 ^ 31 \<Longrightarrow> i32 (v mod 2 ^ 32) = v"
  unfolding i32_def by (simp add: mod_add_left_eq)

lemma header_rt: "wf_BlockHeader h \<Longrightarrow> readBlockHeaderBuf (s, writeBlockHeaderBuf h @ r) = Inr (h, s, r)"
  using i32_mod [of "h_Version h"]
  by (cases h) (simp add: wf_BlockHeader_def readBlockHeaderBuf_def writeBlockHeaderBuf_def unixOf_def second_def nat_less_iff
      pos_imp_zdiv_nonneg_iff)

lemma block_rt: "wf_MsgBlock b \<Longrightarrow> MsgBlock_BtcDecode WitnessEncoding (MsgBlock_BtcEncode WitnessEncoding b) = Inr b"
proof -
  assume wf: "wf_MsgBlock b"
  then have "list_all (\<lambda>tx. wf_MsgTx tx \<and> TxIn tx \<noteq> []) (Transactions b)" by (simp add: wf_MsgBlock_def)
  from block_tx.many [OF this, of _ "[]"] wf show ?thesis
    by (cases b) (simp add: wf_MsgBlock_def MsgBlock_BtcDecode_def MsgBlock_BtcEncode_def header_rt wireErr_def maxTxPerBlock_def)
qed

end
