(* ===== verification/Supply.thy ===== *)
theory Supply
  imports Blocks
begin

text \<open>
  The money of DogecoinVM as its ledger counts it (\<open>btcd/blockchain\<close>): the value of a transaction's inputs, the set of
  unspent outputs as blocks are connected, and the reserve the first blocks create.  A view here holds every output
  ever created, spent ones marked; the source loads the entries a block needs and drops spent ones when it writes them.
\<close>

section \<open>Parameters\<close>

record PegReserve =
  r_pkScript :: bytes
  r_amount :: int
  r_blocks :: int

record params =
  p_reserve :: "PegReserve option"
  p_noSubsidy :: bool
  p_interval :: int
  p_maturity :: int

definition baseSubsidy :: int where "baseSubsidy = 50 * 100000000"
definition PegReserveAmountPerBlock :: int where "PegReserveAmountPerBlock = 9000000000 * 100000000"

definition PegReserveAt :: "params \<Rightarrow> int \<Rightarrow> int" where
  "PegReserveAt p height = (case p_reserve p of
     None \<Rightarrow> 0
   | Some r \<Rightarrow> if height < 1 \<or> height > r_blocks r then 0 else r_amount r)"

text \<open>Heights are not negative, so Go's division and this one agree.\<close>

definition CalcBlockSubsidy :: "int \<Rightarrow> params \<Rightarrow> int" where
  "CalcBlockSubsidy height p =
     (if p_noSubsidy p then 0
      else if p_interval p = 0 then baseSubsidy
      else baseSubsidy div 2 ^ nat (height div p_interval p))"

section \<open>Unspent outputs\<close>

record UtxoEntry =
  x_amount :: int
  x_pkScript :: bytes
  x_height :: int
  x_coinbase :: bool
  x_spent :: bool

type_synonym UtxoViewpoint = "(OutPoint, UtxoEntry) gomap"

definition IsUnspendable :: "bytes \<Rightarrow> bool" where
  "IsUnspendable scr =
     (if scr \<noteq> [] \<and> hd scr = OP_RETURN then True
      else if length scr > MaxScriptSize then True
      else \<not> is_ok (checkScriptParses scr))"

definition Spend :: "UtxoEntry \<Rightarrow> UtxoEntry" where
  "Spend x = (if x_spent x then x else x\<lparr>x_spent := True\<rparr>)"

definition addTxOut :: "OutPoint \<Rightarrow> TxOut \<Rightarrow> bool \<Rightarrow> int \<Rightarrow> UtxoViewpoint \<Rightarrow> UtxoViewpoint" where
  "addTxOut op out coinbase height view =
     (if IsUnspendable (PkScript out) then view
      else store view op \<lparr>x_amount = Value out, x_pkScript = PkScript out, x_height = height, x_coinbase = coinbase, x_spent = False\<rparr>)"

definition AddTxOuts :: "hashes \<Rightarrow> MsgTx \<Rightarrow> int \<Rightarrow> UtxoViewpoint \<Rightarrow> UtxoViewpoint" where
  "AddTxOuts H tx height view = foldl (\<lambda>view (i, out).
     addTxOut \<lparr>Hash = TxHash H tx, Index = word_of_nat i\<rparr> out (IsCoinBaseTx tx) height view) view (enumerate 0 (TxOut tx))"

fun spendInputs :: "TxIn list \<Rightarrow> UtxoViewpoint \<Rightarrow> rerr + UtxoViewpoint" where
  "spendInputs [] view = Inr view"
| "spendInputs (ti # tis) view = (case lookup view (PreviousOutPoint ti) of
     None \<Rightarrow> Inl MissingInputAssert
   | Some x \<Rightarrow> spendInputs tis (store view (PreviousOutPoint ti) (Spend x)))"

definition connectTransaction :: "hashes \<Rightarrow> MsgTx \<Rightarrow> int \<Rightarrow> UtxoViewpoint \<Rightarrow> rerr + UtxoViewpoint" where
  "connectTransaction H tx height view =
     (if IsCoinBaseTx tx then Inr (AddTxOuts H tx height view)
      else bindr (spendInputs (TxIn tx) view) (\<lambda>view. Inr (AddTxOuts H tx height view)))"

section \<open>The value of inputs\<close>

fun sumInputs :: "params \<Rightarrow> int \<Rightarrow> UtxoViewpoint \<Rightarrow> int \<Rightarrow> TxIn list \<Rightarrow> rerr + int" where
  "sumInputs p height view tot [] = Inr tot"
| "sumInputs p height view tot (ti # tis) = (case lookup view (PreviousOutPoint ti) of
     None \<Rightarrow> Inl MissingTxOut
   | Some x \<Rightarrow>
       if x_spent x then Inl MissingTxOut
       else if x_coinbase x \<and> i32 (height - x_height x) < p_maturity p then Inl ImmatureSpend
       else if x_amount x < 0 then Inl BadTxOutValue
       else if x_amount x > MaxSatoshi then Inl BadTxOutValue
       else let sum = i64 (tot + x_amount x) in
         if sum < tot \<or> sum > MaxSatoshi then Inl BadTxOutValue
         else sumInputs p height view sum tis)"

definition totalOut :: "MsgTx \<Rightarrow> int" where
  "totalOut tx = foldl (\<lambda>n out. i64 (n + Value out)) 0 (TxOut tx)"

definition CheckTransactionInputs :: "MsgTx \<Rightarrow> int \<Rightarrow> UtxoViewpoint \<Rightarrow> params \<Rightarrow> rerr + int" where
  "CheckTransactionInputs tx height view p =
     (if IsCoinBaseTx tx then Inr 0
      else bindr (sumInputs p height view 0 (TxIn tx)) (\<lambda>totalIn.
        if totalIn < totalOut tx then Inl SpendTooHigh
        else Inr (i64 (totalIn - totalOut tx))))"

section \<open>Connecting a block\<close>

fun connectTxs :: "hashes \<Rightarrow> params \<Rightarrow> int \<Rightarrow> MsgTx list \<Rightarrow> int \<Rightarrow> UtxoViewpoint \<Rightarrow> rerr + int \<times> UtxoViewpoint" where
  "connectTxs H p height [] fees view = Inr (fees, view)"
| "connectTxs H p height (tx # txs) fees view =
     bindr (CheckTransactionInputs tx height view p) (\<lambda>fee.
     let total = i64 (fees + fee) in
     if total < fees then Inl BadFees
     else bindr (connectTransaction H tx height view) (\<lambda>view. connectTxs H p height txs total view))"

definition checkPegReserveOutput :: "MsgTx \<Rightarrow> PegReserve \<Rightarrow> rerr + unit" where
  "checkPegReserveOutput tx r =
     guardr (list_ex (\<lambda>out. Value out = r_amount r \<and> PkScript out = r_pkScript r) (TxOut tx)) BadPegReserve"

text \<open>The part of \<open>checkConnectBlock\<close> about values: what inputs and fees pay, and what the coinbase may claim.\<close>

definition connectValues :: "hashes \<Rightarrow> params \<Rightarrow> int \<Rightarrow> MsgTx list \<Rightarrow> UtxoViewpoint \<Rightarrow> rerr + UtxoViewpoint" where
  "connectValues H p height txs view =
     bindr (connectTxs H p height txs 0 view) (\<lambda>(fees, view).
     let reserve = PegReserveAt p height;
         expected = i64 (i64 (CalcBlockSubsidy height p + fees) + reserve) in
     if totalOut (hd txs) > expected then Inl BadCoinbaseValue
     else bindr (if reserve > 0 then checkPegReserveOutput (hd txs) (the (p_reserve p)) else Inr ()) (\<lambda>_. Inr view))"

text \<open>The coinbase the block builder starts from.\<close>

definition createCoinbaseTx :: "params \<Rightarrow> bytes \<Rightarrow> int \<Rightarrow> bytes \<Rightarrow> MsgTx" where
  "createCoinbaseTx p coinbaseScript height scr =
     (let tx = AddTxIn \<lparr>PreviousOutPoint = \<lparr>Hash = zeroHash, Index = 0xffffffff\<rparr>, SignatureScript = coinbaseScript, Witness = [],
                 Sequence = MaxTxInSequenceNum\<rparr> (NewMsgTx TxVersion);
          tx = AddTxOut (NewTxOut (CalcBlockSubsidy height p) scr) tx in
      case p_reserve p of
        Some r \<Rightarrow> if PegReserveAt p height > 0 then AddTxOut (NewTxOut (PegReserveAt p height) (r_pkScript r)) tx else tx
      | None \<Rightarrow> tx)"

section \<open>The money\<close>

definition worth :: "UtxoEntry \<Rightarrow> int" where
  "worth x = (if x_spent x then 0 else x_amount x)"

definition money :: "UtxoViewpoint \<Rightarrow> int" where
  "money view = sum_list (map (worth \<circ> snd) view)"

definition viewOK :: "UtxoViewpoint \<Rightarrow> bool" where
  "viewOK view \<longleftrightarrow> distinct (map fst view) \<and> list_all (\<lambda>(op, x). 0 \<le> x_amount x) view"

definition amountAt :: "UtxoViewpoint \<Rightarrow> OutPoint \<Rightarrow> int" where
  "amountAt view op = (case lookup view op of None \<Rightarrow> 0 | Some x \<Rightarrow> x_amount x)"

definition paysOut :: "MsgTx \<Rightarrow> int" where
  "paysOut tx = sum_list (map Value (TxOut tx))"

lemma keys_distinct_store: "distinct (map fst m) \<Longrightarrow> distinct (map fst (store m k v))"
  by (simp add: store_def distinct_update)

lemma store_ok: "viewOK view \<Longrightarrow> 0 \<le> x_amount x \<Longrightarrow> viewOK (store view op x)"
proof -
  have "list_all (\<lambda>(op, x). 0 \<le> x_amount x) view \<Longrightarrow> 0 \<le> x_amount x \<Longrightarrow> list_all (\<lambda>(op, x). 0 \<le> x_amount x) (AList.update op x view)"
    by (induction view) auto
  then show "viewOK view \<Longrightarrow> 0 \<le> x_amount x \<Longrightarrow> viewOK (store view op x)"
    by (simp add: viewOK_def keys_distinct_store) (simp add: store_def)
qed

lemma supply_store:
  "distinct (map fst view) \<Longrightarrow> money (store view op x) = money view - (case lookup view op of None \<Rightarrow> 0 | Some y \<Rightarrow> worth y) + worth x"
proof (induction view)
  case Nil
  then show ?case by (simp add: money_def store_def lookup_def)
next
  case (Cons kv view)
  obtain k y where kv: "kv = (k, y)" by (cases kv)
  show ?case
  proof (cases "k = op")
    case True
    then show ?thesis by (simp add: kv money_def store_def lookup_def)
  next
    case False
    then show ?thesis using Cons by (simp add: kv money_def store_def lookup_def)
  qed
qed

lemma lookup_amount: "viewOK view \<Longrightarrow> lookup view op = Some x \<Longrightarrow> 0 \<le> x_amount x"
  by (auto simp: viewOK_def lookup_def list_all_iff dest: map_of_SomeD)

lemma worth_nonneg: "viewOK view \<Longrightarrow> lookup view op = Some x \<Longrightarrow> 0 \<le> worth x"
  by (simp add: worth_def lookup_amount)

lemma i64_le: "- (2 ^ 63) \<le> x \<Longrightarrow> i64 x \<le> x"
  unfolding i64_def using zmod_le_nonneg_dividend [of "x + 2 ^ 63" "2 ^ 64"] by simp

section \<open>Outputs\<close>

lemma sanityOuts_sum:
  "sanityOuts tot outs = Inr () \<Longrightarrow> 0 \<le> tot \<Longrightarrow> tot \<le> MaxSatoshi \<Longrightarrow>
     list_all (\<lambda>out. 0 \<le> Value out) outs \<and> foldl (\<lambda>n out. i64 (n + Value out)) tot outs = tot + sum_list (map Value outs)"
proof (induction tot outs rule: sanityOuts.induct)
  case (2 tot out outs)
  have v: "0 \<le> Value out" "Value out \<le> MaxSatoshi" using "2.prems"(1) by (auto split: if_splits)
  then have i: "i64 (tot + Value out) = tot + Value out"
    using "2.prems"(2,3) by (intro i64_id) (simp add: in_i64_def MaxSatoshi_def)
  have "sanityOuts (tot + Value out) outs = Inr ()" "0 \<le> tot + Value out" "tot + Value out \<le> MaxSatoshi"
    using "2.prems" v by (auto simp: i Let_def split: if_splits)
  from "2.IH" [OF _ _ i [symmetric] _ _ this] v this show ?case by (simp add: i)
qed simp

lemma AddTxOuts_supply:
  assumes "viewOK view" "list_all (\<lambda>out. 0 \<le> Value out) (TxOut tx)"
  shows "viewOK (AddTxOuts H tx height view)" "money (AddTxOuts H tx height view) \<le> money view + paysOut tx"
proof -
  let ?f = "\<lambda>view (i, out). addTxOut \<lparr>Hash = TxHash H tx, Index = word_of_nat i\<rparr> out (IsCoinBaseTx tx) height view"
  have step: "viewOK (addTxOut op out cb height v) \<and> money (addTxOut op out cb height v) \<le> money v + Value out"
    if "viewOK v" "0 \<le> Value out" for op out cb v
    using that store_ok [of v] supply_store [of v] worth_nonneg [of v]
    by (auto simp: addTxOut_def viewOK_def [of v] worth_def split: option.split)
  have "viewOK (foldl ?f v (enumerate n outs)) \<and> money (foldl ?f v (enumerate n outs)) \<le> money v + sum_list (map Value outs)"
    if "viewOK v" "list_all (\<lambda>out. 0 \<le> Value out) outs" for v n outs
    using that
  proof (induction outs arbitrary: v n)
    case (Cons out outs)
    let ?v = "?f v (n, out)"
    have v: "viewOK ?v" "money ?v \<le> money v + Value out" using step [OF Cons.prems(1)] Cons.prems(2) by simp_all
    have "list_all (\<lambda>out. 0 \<le> Value out) outs" using Cons.prems(2) by simp
    from Cons.IH [OF v(1) this, of "Suc n"] v(2) show ?case by simp
  qed simp
  from this [OF assms] show "viewOK (AddTxOuts H tx height view)" "money (AddTxOuts H tx height view) \<le> money view + paysOut tx"
    by (simp_all add: AddTxOuts_def paysOut_def)
qed

section \<open>Inputs\<close>

lemma sumInputs_Inr:
  "sumInputs p height view tot tis = Inr r \<Longrightarrow> 0 \<le> tot \<Longrightarrow>
     list_all (\<lambda>ti. \<exists>x. lookup view (PreviousOutPoint ti) = Some x \<and> \<not> x_spent x) tis
     \<and> r \<le> tot + sum_list (map (amountAt view \<circ> PreviousOutPoint) tis) \<and> 0 \<le> r \<and> r \<le> max tot MaxSatoshi"
proof (induction tis arbitrary: tot)
  case (Cons ti tis)
  then obtain x where x: "lookup view (PreviousOutPoint ti) = Some x" "\<not> x_spent x" "0 \<le> x_amount x"
    "tot \<le> i64 (tot + x_amount x)" "i64 (tot + x_amount x) \<le> MaxSatoshi" "sumInputs p height view (i64 (tot + x_amount x)) tis = Inr r"
    by (auto simp: Let_def split: option.splits if_splits)
  have "i64 (tot + x_amount x) \<le> tot + x_amount x" using Cons.prems(2) x(3) by (intro i64_le) simp
  moreover have "0 \<le> i64 (tot + x_amount x)" using Cons.prems(2) x(4) by simp
  ultimately show ?case using Cons.IH [OF x(6)] x(1,2,5) by (auto simp: amountAt_def)
qed simp

lemma spendInputs_supply:
  "spendInputs tis view = Inr view' \<Longrightarrow> viewOK view \<Longrightarrow> distinct (map PreviousOutPoint tis) \<Longrightarrow>
     list_all (\<lambda>ti. \<exists>x. lookup view (PreviousOutPoint ti) = Some x \<and> \<not> x_spent x) tis \<Longrightarrow>
     viewOK view' \<and> money view' = money view - sum_list (map (amountAt view \<circ> PreviousOutPoint) tis)"
proof (induction tis arbitrary: view)
  case (Cons ti tis)
  let ?op = "PreviousOutPoint ti"
  from Cons.prems(4) obtain x where x: "lookup view ?op = Some x" "\<not> x_spent x" by auto
  let ?v = "store view ?op (Spend x)"
  have ok: "viewOK ?v" using Cons.prems(2) lookup_amount [OF Cons.prems(2) x(1)] by (intro store_ok) (simp_all add: Spend_def)
  have s: "money ?v = money view - amountAt view ?op"
    using Cons.prems(2) x by (simp add: viewOK_def supply_store worth_def Spend_def amountAt_def)
  have other: "lookup ?v (PreviousOutPoint t) = lookup view (PreviousOutPoint t)" if "t \<in> set tis" for t
  proof -
    have "PreviousOutPoint t \<noteq> ?op" using Cons.prems(3) that by (metis distinct.simps(2) image_eqI list.set_map list.simps(9))
    then show ?thesis by simp
  qed
  then have m: "map (amountAt ?v \<circ> PreviousOutPoint) tis = map (amountAt view \<circ> PreviousOutPoint) tis" by (simp add: amountAt_def)
  have "list_all (\<lambda>ti. \<exists>x. lookup ?v (PreviousOutPoint ti) = Some x \<and> \<not> x_spent x) tis"
    using Cons.prems(4) other by (auto simp: list_all_iff)
  moreover have "spendInputs tis ?v = Inr view'" using Cons.prems(1) x(1) by simp
  ultimately have "viewOK view' \<and> money view' = money ?v - sum_list (map (amountAt ?v \<circ> PreviousOutPoint) tis)"
    using Cons.IH [OF _ ok] Cons.prems(3) by (simp add: comp_def)
  then show ?case unfolding m s by (simp add: comp_def)
qed simp

section \<open>Transactions and blocks\<close>

lemma sane_outs:
  assumes "CheckTransactionSanity tx = Inr ()"
  shows "list_all (\<lambda>out. 0 \<le> Value out) (TxOut tx)" "totalOut tx = paysOut tx" "distinct (map PreviousOutPoint (TxIn tx))" "0 \<le> paysOut tx"
proof -
  have "sanityOuts 0 (TxOut tx) = Inr ()" and d: "distinct (map PreviousOutPoint (TxIn tx))"
    using assms by (auto simp: CheckTransactionSanity_def)
  from sanityOuts_sum [OF this(1)] show *: "list_all (\<lambda>out. 0 \<le> Value out) (TxOut tx)" "totalOut tx = paysOut tx"
    by (simp_all add: totalOut_def paysOut_def MaxSatoshi_def)
  show "distinct (map PreviousOutPoint (TxIn tx))" by (rule d)
  show "0 \<le> paysOut tx" unfolding paysOut_def using *(1) by (intro sum_list_nonneg) (auto simp: list_all_iff)
qed

text \<open>A transaction leaves at most what was there less its fee; a coinbase adds its outputs.\<close>

definition minted :: "MsgTx \<Rightarrow> int" where
  "minted tx = (if IsCoinBaseTx tx then paysOut tx else 0)"

lemma connectTransaction_supply:
  assumes "CheckTransactionInputs tx height view p = Inr fee" "connectTransaction H tx height view = Inr view'"
    and "viewOK view" "CheckTransactionSanity tx = Inr ()"
  shows "viewOK view'" "money view' + fee \<le> money view + minted tx" "0 \<le> fee"
proof -
  note outs = sane_outs [OF assms(4)]
  have "viewOK view' \<and> money view' + fee \<le> money view + minted tx \<and> 0 \<le> fee"
  proof (cases "IsCoinBaseTx tx")
    case True
    then show ?thesis using assms(1,2) AddTxOuts_supply [OF assms(3) outs(1), of H height]
      by (auto simp: CheckTransactionInputs_def connectTransaction_def minted_def)
  next
    case False
    obtain tin where tin: "sumInputs p height view 0 (TxIn tx) = Inr tin" "paysOut tx \<le> tin" "fee = i64 (tin - paysOut tx)"
      using assms(1) False by (auto simp: CheckTransactionInputs_def outs(2) split: if_splits)
    note sums = sumInputs_Inr [OF tin(1)]
    have "fee = tin - paysOut tx"
      unfolding tin(3) using sums tin(2) outs(4) by (intro i64_id) (simp add: in_i64_def MaxSatoshi_def)
    moreover obtain v where v: "spendInputs (TxIn tx) view = Inr v" "view' = AddTxOuts H tx height v"
      using assms(2) False by (auto simp: connectTransaction_def)
    moreover have "viewOK v \<and> money v = money view - sum_list (map (amountAt view \<circ> PreviousOutPoint) (TxIn tx))"
      using sums by (intro spendInputs_supply [OF v(1) assms(3) outs(3)]) simp
    ultimately show ?thesis using AddTxOuts_supply [of v tx H height] outs(1) sums tin(2) False by (auto simp: minted_def)
  qed
  then show "viewOK view'" "money view' + fee \<le> money view + minted tx" "0 \<le> fee" by simp_all
qed

lemma connectTxs_supply:
  "connectTxs H p height txs fees view = Inr (earned, view') \<Longrightarrow> viewOK view \<Longrightarrow> 0 \<le> fees \<Longrightarrow>
   list_all (\<lambda>tx. CheckTransactionSanity tx = Inr ()) txs \<Longrightarrow>
   viewOK view' \<and> money view' + earned \<le> money view + fees + sum_list (map minted txs) \<and> 0 \<le> earned"
proof (induction txs arbitrary: fees view)
  case (Cons tx txs)
  then obtain fee v where f: "CheckTransactionInputs tx height view p = Inr fee" "fees \<le> i64 (fees + fee)"
    "connectTransaction H tx height view = Inr v" "connectTxs H p height txs (i64 (fees + fee)) v = Inr (earned, view')"
    by (auto simp: Let_def split: if_splits)
  have c: "viewOK v" "money v + fee \<le> money view + minted tx" "0 \<le> fee"
    using connectTransaction_supply [OF f(1,3) Cons.prems(2)] Cons.prems(4) by simp_all
  have "i64 (fees + fee) \<le> fees + fee" using Cons.prems(3) c(3) by (intro i64_le) simp
  moreover have "0 \<le> i64 (fees + fee)" using Cons.prems(3) f(2) by simp
  ultimately show ?case using Cons.IH [OF f(4) c(1)] Cons.prems(4) c(2) by simp
qed simp

text \<open>The chain of blocks connected one after the other, from an empty set of outputs.\<close>

inductive connected :: "hashes \<Rightarrow> params \<Rightarrow> nat \<Rightarrow> UtxoViewpoint \<Rightarrow> bool" for H p where
  genesis: "connected H p 0 []"
| block: "connected H p n view \<Longrightarrow> checkBlockSanity H b now = Inr () \<Longrightarrow> connectValues H p (int (Suc n)) (Transactions b) view = Inr view' \<Longrightarrow>
    connected H p (Suc n) view'"

lemma minted_block:
  assumes "checkBlockSanity H b now = Inr ()"
  shows "sum_list (map minted (Transactions b)) = paysOut (hd (Transactions b))"
    "list_all (\<lambda>tx. CheckTransactionSanity tx = Inr ()) (Transactions b)" "Transactions b \<noteq> []"
proof -
  have *: "Transactions b \<noteq> []" "IsCoinBaseTx (hd (Transactions b))" "\<not> list_ex IsCoinBaseTx (tl (Transactions b))"
    and c: "\<exists>us. collect (map CheckTransactionSanity (Transactions b)) = Inr us"
    using assms by (auto simp: checkBlockSanity_def Let_def)
  then obtain tx rest where t: "Transactions b = tx # rest" by (cases "Transactions b") auto
  have "\<not> list_ex IsCoinBaseTx rest" using *(3) t by simp
  then have "sum_list (map minted rest) = 0" by (induction rest) (auto simp: minted_def)
  then show "sum_list (map minted (Transactions b)) = paysOut (hd (Transactions b))" using * t by (simp add: minted_def)
  from c show "list_all (\<lambda>tx. CheckTransactionSanity tx = Inr ()) (Transactions b)"
    by (auto simp: collect_Inr list_all_iff map_eq_conv) (metis (mono_tags) ex_map_conv image_eqI list.set_map old.unit.exhaust)
  show "Transactions b \<noteq> []" by (rule *(1))
qed

lemma connectValues_supply:
  assumes "connectValues H p height (Transactions b) view = Inr view'" "checkBlockSanity H b now = Inr ()" "viewOK view"
    and "0 \<le> CalcBlockSubsidy height p" "0 \<le> PegReserveAt p height"
  shows "viewOK view'" "money view' \<le> money view + CalcBlockSubsidy height p + PegReserveAt p height"
proof -
  note mb = minted_block [OF assms(2)]
  obtain fees where f: "connectTxs H p height (Transactions b) 0 view = Inr (fees, view')"
    "totalOut (hd (Transactions b)) \<le> i64 (i64 (CalcBlockSubsidy height p + fees) + PegReserveAt p height)"
    using assms(1) by (auto simp: connectValues_def Let_def not_less split: if_splits)
  have c: "viewOK view'" "money view' + fees \<le> money view + paysOut (hd (Transactions b))" "0 \<le> fees"
    using connectTxs_supply [OF f(1) assms(3) _ mb(2)] mb(1) by simp_all
  have "totalOut (hd (Transactions b)) = paysOut (hd (Transactions b))" using mb(2,3) sane_outs(2) by (cases "Transactions b") auto
  moreover have "i64 (CalcBlockSubsidy height p + fees) \<le> CalcBlockSubsidy height p + fees" using assms(4) c(3) by (intro i64_le) simp
  moreover have "i64 (i64 (CalcBlockSubsidy height p + fees) + PegReserveAt p height) \<le> i64 (CalcBlockSubsidy height p + fees) + PegReserveAt p height"
    using in_i64_i64 [of "CalcBlockSubsidy height p + fees"] assms(5) by (intro i64_le) (simp add: in_i64_def)
  ultimately show "money view' \<le> money view + CalcBlockSubsidy height p + PegReserveAt p height" using f(2) c(2) by linarith
  show "viewOK view'" by (rule c(1))
qed

section \<open>Sample values\<close>

text \<open>A chain whose first block creates the reserve, and that block as the builder starts it.\<close>

definition sampleParams :: params where
  "sampleParams = \<lparr>p_reserve = Some \<lparr>r_pkScript = [OP_1], r_amount = PegReserveAmountPerBlock, r_blocks = 1\<rparr>,
     p_noSubsidy = True, p_interval = 210000, p_maturity = 0\<rparr>"

definition sampleCoinbase :: MsgTx where
  "sampleCoinbase = createCoinbaseTx sampleParams [0x51, 0x00, 0x0b, 0x2f, 0x50, 0x32, 0x53, 0x48, 0x2f, 0x62, 0x74, 0x63, 0x64, 0x2f] 1 [OP_1]"

definition sampleGenesis :: MsgBlock where
  "sampleGenesis = \<lparr>Header = \<lparr>h_Version = 1, PrevBlock = replicate 32 0, MerkleRoot = replicate 32 0, Timestamp = 0, Bits = 0, Nonce = 0\<rparr>, Transactions = []\<rparr>"

definition sampleBlock :: MsgBlock where
  "sampleBlock = \<lparr>Header = \<lparr>h_Version = 4, PrevBlock = BlockHash sampleHashes (Header sampleGenesis), MerkleRoot = TxHash sampleHashes sampleCoinbase,
     Timestamp = 1700000000 * second, Bits = 0, Nonce = 0\<rparr>, Transactions = [sampleCoinbase]\<rparr>"

definition sampleView :: UtxoViewpoint where
  "sampleView = AddTxOuts sampleHashes sampleCoinbase 1 []"

lemma sample_sane: "checkBlockSanity sampleHashes sampleBlock (1700000000 * second) = Inr ()" by code_simp

lemma sample_connects: "connectValues sampleHashes sampleParams 1 (Transactions sampleBlock) [] = Inr sampleView" by code_simp

lemma sample_money: "money sampleView = PegReserveAmountPerBlock" by code_simp

lemma sample_connected: "connected sampleHashes sampleParams 1 sampleView"
  using connected.block [OF connected.genesis sample_sane, of sampleParams sampleView] sample_connects by simp

section \<open>Properties\<close>

text \<open>C3: on a chain without block subsidy, as DogecoinVM is, all unspent outputs together are never worth more than the
  reserve the blocks so far had to create: one amount per block up to the last reserve block, and nothing after it,
  whatever the blocks contain and although all sums are of 64 bits.\<close>

theorem supply_bounded:
  assumes "connected H p n view" "p_noSubsidy p" "p_reserve p = Some r" "0 \<le> r_amount r"
  shows "money view \<le> int (min n (nat (r_blocks r))) * r_amount r"
proof -
  have "viewOK view \<and> money view \<le> int (min n (nat (r_blocks r))) * r_amount r"
    using assms(1)
  proof (induction rule: connected.induct)
    case genesis
    then show ?case by (simp add: viewOK_def money_def)
  next
    case (block n view b now view')
    have z: "CalcBlockSubsidy (int (Suc n)) p = 0" using assms(2) by (simp add: CalcBlockSubsidy_def)
    have at: "PegReserveAt p (int (Suc n)) = (if Suc n \<le> nat (r_blocks r) then r_amount r else 0)"
      using assms(3) by (auto simp: PegReserveAt_def)
    have nn: "0 \<le> CalcBlockSubsidy (int (Suc n)) p" "0 \<le> PegReserveAt p (int (Suc n))" unfolding z at using assms(4) by simp_all
    have "viewOK view'" "money view' \<le> money view + PegReserveAt p (int (Suc n))"
      using connectValues_supply [OF block.hyps(3,2) _ nn] block.IH unfolding z by simp_all
    moreover have "int (min n (nat (r_blocks r))) * r_amount r + PegReserveAt p (int (Suc n)) = int (min (Suc n) (nat (r_blocks r))) * r_amount r"
      unfolding at by (auto simp: min_def algebra_simps not_le)
    ultimately show ?case using block.IH by linarith
  qed
  then show ?thesis by simp
qed

theorem supply_bounded_witness:
  "money sampleView \<le> int (min 1 (nat 1)) * PegReserveAmountPerBlock \<and> money sampleView = PegReserveAmountPerBlock"
proof -
  have p: "p_noSubsidy sampleParams"
    "p_reserve sampleParams = Some \<lparr>r_pkScript = [OP_1], r_amount = PegReserveAmountPerBlock, r_blocks = 1\<rparr>"
    "0 \<le> r_amount \<lparr>r_pkScript = [OP_1], r_amount = PegReserveAmountPerBlock, r_blocks = 1\<rparr>"
    by (simp_all add: sampleParams_def PegReserveAmountPerBlock_def)
  from supply_bounded [OF sample_connected p] show ?thesis by (simp add: sample_money)
qed

end
