(* ===== verification/Lifecycle.thy ===== *)
theory Lifecycle
  imports Supply "HOL-Library.Sublist"
begin

text \<open>
  The life of a block in the virtual machine, \<open>vm/block_adapter.go\<close> and \<open>vm/vm.go\<close>: parsed or built, verified on top of
  the last accepted block, accepted into the ledger and written to disk, or rejected.  The ledger is the chain the node
  has connected, with the rules of \<open>btcd/blockchain\<close>.  What a storage failure does is an argument of \<open>accept\<close>; a
  restart reads the ledger back from disk.
\<close>

section \<open>The ledger\<close>

text \<open>The main chain with the newest block first, its outputs, and every block hash the index knows.\<close>

record ledger =
  l_main :: "(bytes \<times> MsgBlock) list"
  l_view :: UtxoViewpoint
  l_index :: "bytes list"

definition tipHash :: "ledger \<Rightarrow> bytes" where "tipHash l = fst (hd (l_main l))"
definition tipHeight :: "ledger \<Rightarrow> int" where "tipHeight l = int (length (l_main l)) - 1"

definition BlockByHash :: "ledger \<Rightarrow> bytes \<Rightarrow> (MsgBlock \<times> int) option" where
  "BlockByHash l hash = (case dropWhile (\<lambda>(h, b). h \<noteq> hash) (l_main l) of
     [] \<Rightarrow> None
   | (h, b) # rest \<Rightarrow> Some (b, int (length rest)))"

text \<open>
  A node: its parameters, and as functions the rules not defined here, which can only refuse a block (difficulty and
  median time; what scripts and signatures cost and whether they hold), the time lock times are compared with, what is
  done with a block that does not extend the tip, and the block template.
\<close>

record node =
  n_params :: params
  n_bip34 :: int
  n_bip65 :: int
  n_bip66 :: int
  n_context :: "ledger \<Rightarrow> MsgBlock \<Rightarrow> rerr + unit"
  n_blockTime :: "ledger \<Rightarrow> MsgBlock \<Rightarrow> int"
  n_sigOps :: "ledger \<Rightarrow> MsgBlock \<Rightarrow> rerr + unit"
  n_scripts :: "ledger \<Rightarrow> MsgBlock \<Rightarrow> rerr + unit"
  n_side :: "ledger \<Rightarrow> MsgBlock \<Rightarrow> (rerr + bool \<times> bool) \<times> ledger"
  n_template :: "ledger \<Rightarrow> (MsgBlock \<times> int) option"

definition LockTimeThreshold :: nat where "LockTimeThreshold = 500000000"

definition IsFinalizedTransaction :: "MsgTx \<Rightarrow> int \<Rightarrow> int \<Rightarrow> bool" where
  "IsFinalizedTransaction tx blockHeight blockTime = (let lockTime = unat (LockTime tx) in
     if lockTime = 0 then True
     else let blockTimeOrHeight = (if lockTime < LockTimeThreshold then blockHeight else unixOf blockTime) in
       if int lockTime < blockTimeOrHeight then True
       else \<not> list_ex (\<lambda>ti. Sequence ti \<noteq> 0xffffffff) (TxIn tx))"

definition ShouldHaveSerializedBlockHeight :: "BlockHeader \<Rightarrow> bool" where
  "ShouldHaveSerializedBlockHeight header = (h_Version header \<ge> 2)"

definition CheckBlockHeaderContext :: "node \<Rightarrow> ledger \<Rightarrow> MsgBlock \<Rightarrow> rerr + unit" where
  "CheckBlockHeaderContext N l b = (let version = h_Version (Header b); blockHeight = tipHeight l + 1 in
     bindr (n_context N l b) (\<lambda>_.
     guardr (\<not> (version < 2 \<and> blockHeight \<ge> n_bip34 N \<or> version < 3 \<and> blockHeight \<ge> n_bip66 N
              \<or> version < 4 \<and> blockHeight \<ge> n_bip65 N)) BlockVersionTooOld))"

text \<open>DogecoinVM never activates segregated witnesses.\<close>

definition checkBlockContext :: "node \<Rightarrow> ledger \<Rightarrow> MsgBlock \<Rightarrow> rerr + unit" where
  "checkBlockContext N l b = (let blockHeight = tipHeight l + 1 in
     bindr (CheckBlockHeaderContext N l b) (\<lambda>_.
     bindr (guardr (list_all (\<lambda>tx. IsFinalizedTransaction tx blockHeight (n_blockTime N l b)) (Transactions b)) UnfinalizedTx) (\<lambda>_.
     bindr (if ShouldHaveSerializedBlockHeight (Header b) \<and> blockHeight \<ge> n_bip34 N
            then CheckSerializedHeight (hd (Transactions b)) blockHeight else Inr ()) (\<lambda>_.
     guardr (\<not> list_ex HasWitness (Transactions b)) UnexpectedWitness))))"

definition checkConnectBlock :: "hashes \<Rightarrow> node \<Rightarrow> ledger \<Rightarrow> MsgBlock \<Rightarrow> rerr + UtxoViewpoint" where
  "checkConnectBlock H N l b =
     bindr (n_sigOps N l b) (\<lambda>_.
     bindr (connectValues H (n_params N) (tipHeight l + 1) (Transactions b) (l_view l)) (\<lambda>view.
     bindr (n_scripts N l b) (\<lambda>_. Inr view)))"

definition CheckConnectBlockTemplate :: "hashes \<Rightarrow> node \<Rightarrow> int \<Rightarrow> ledger \<Rightarrow> MsgBlock \<Rightarrow> rerr + unit" where
  "CheckConnectBlockTemplate H N adjusted l b =
     bindr (guardr (tipHash l = PrevBlock (Header b)) PrevBlockNotBest) (\<lambda>_.
     bindr (checkBlockSanity H b adjusted) (\<lambda>_.
     bindr (checkBlockContext N l b) (\<lambda>_.
     bindr (checkConnectBlock H N l b) (\<lambda>_. Inr ()))))"

text \<open>A block that extends the tip, \<open>maybeAcceptBlock\<close> and \<open>connectBestChain\<close>: it is in the index before it is connected.\<close>

definition extendTip :: "hashes \<Rightarrow> node \<Rightarrow> ledger \<Rightarrow> MsgBlock \<Rightarrow> (rerr + bool \<times> bool) \<times> ledger" where
  "extendTip H N l b = (case checkBlockContext N l b of
     Inl e \<Rightarrow> (Inl e, l)
   | Inr _ \<Rightarrow> let hash = BlockHash H (Header b); l' = l\<lparr>l_index := hash # l_index l\<rparr> in
       (case checkConnectBlock H N l b of
          Inl e \<Rightarrow> (Inl e, l')
        | Inr view \<Rightarrow> (Inr (True, False), l'\<lparr>l_main := (hash, b) # l_main l, l_view := view\<rparr>)))"

text \<open>The first flag of the result says whether the block is on the main chain, the second whether it is an orphan.\<close>

definition ProcessBlock :: "hashes \<Rightarrow> node \<Rightarrow> int \<Rightarrow> ledger \<Rightarrow> MsgBlock \<Rightarrow> (rerr + bool \<times> bool) \<times> ledger" where
  "ProcessBlock H N adjusted l b =
     (if BlockHash H (Header b) \<in> set (l_index l) then (Inl DuplicateBlock, l)
      else case checkBlockSanity H b adjusted of
        Inl e \<Rightarrow> (Inl e, l)
      | Inr _ \<Rightarrow> if PrevBlock (Header b) \<notin> set (l_index l) then (Inr (False, True), l)
          else if PrevBlock (Header b) = tipHash l then extendTip H N l b
          else n_side N l b)"

fun isRuleError :: "rerr \<Rightarrow> bool" where
  "isRuleError MissingInputAssert = False"
| "isRuleError (BadScript e) = False"
| "isRuleError (BadEncoding e) = False"
| "isRuleError _ = True"

section \<open>The virtual machine\<close>

record BlockAdapter =
  a_block :: MsgBlock
  a_id :: bytes
  a_parentID :: bytes
  a_height :: nat
  a_timestamp :: int
  a_bytes :: bytes

record VM =
  vm_chain :: ledger
  vm_disk :: ledger
  preferred :: bytes
  lastAccepted :: bytes
  verifiedBlocks :: "(bytes, BlockAdapter) gomap"
  broken :: bool

datatype verr = NoHeight | NotFound | Undecodable rerr | NonCanonicalBlock | NoCoinbase | HeightUnreadable rerr
  | Broken | ParentNotAccepted | WrongHeight | FailedValidation rerr | ConnectFailed | NotTheTip | PersistFailed
  | BlockProcessing | NoTemplate | NotOnLastAccepted

definition BlockHeightUnknown :: int where "BlockHeightUnknown = -1"

definition newBlockAdapter :: "hashes \<Rightarrow> MsgBlock \<Rightarrow> int \<Rightarrow> verr + BlockAdapter" where
  "newBlockAdapter H b height =
     (if height = BlockHeightUnknown then Inl NoHeight
      else Inr \<lparr>a_block = b, a_id = BlockHash H (Header b), a_parentID = PrevBlock (Header b), a_height = nat (height mod 2 ^ 64),
                a_timestamp = Timestamp (Header b), a_bytes = MsgBlock_BtcEncode WitnessEncoding b\<rparr>)"

definition acceptedBlockAdapter :: "hashes \<Rightarrow> VM \<Rightarrow> bytes \<Rightarrow> verr + BlockAdapter" where
  "acceptedBlockAdapter H vm blockID = (case BlockByHash (vm_chain vm) blockID of
     None \<Rightarrow> Inl NotFound
   | Some (b, height) \<Rightarrow> newBlockAdapter H b height)"

definition getBlock :: "hashes \<Rightarrow> VM \<Rightarrow> bytes \<Rightarrow> verr + BlockAdapter" where
  "getBlock H vm blockID = (case lookup (verifiedBlocks vm) blockID of
     Some blk \<Rightarrow> Inr blk
   | None \<Rightarrow> acceptedBlockAdapter H vm blockID)"

definition parseBlockAdapter :: "hashes \<Rightarrow> VM \<Rightarrow> bytes \<Rightarrow> verr + BlockAdapter" where
  "parseBlockAdapter H vm blockBytes = (case MsgBlock_BtcDecode WitnessEncoding blockBytes of
     Inl e \<Rightarrow> Inl (Undecodable e)
   | Inr b \<Rightarrow>
       if MsgBlock_BtcEncode WitnessEncoding b \<noteq> blockBytes then Inl NonCanonicalBlock
       else case getBlock H vm (BlockHash H (Header b)) of
         Inr known \<Rightarrow> Inr known
       | Inl _ \<Rightarrow> (case Transactions b of
           [] \<Rightarrow> Inl NoCoinbase
         | coinbase # _ \<Rightarrow> (case ExtractCoinbaseHeight coinbase of
             Inl e \<Rightarrow> Inl (HeightUnreadable e)
           | Inr height \<Rightarrow> newBlockAdapter H b height)))"

definition ParseBlock :: "hashes \<Rightarrow> VM \<Rightarrow> bytes \<Rightarrow> verr + BlockAdapter" where
  "ParseBlock H vm blockBytes = bindr (parseBlockAdapter H vm blockBytes) (\<lambda>a.
     case getBlock H vm (a_id a) of Inr known \<Rightarrow> Inr known | Inl _ \<Rightarrow> Inr a)"

definition hasProcessingBlocks :: "VM \<Rightarrow> bool" where
  "hasProcessingBlocks vm = (length (verifiedBlocks vm) > 0)"

text \<open>\<open>pending\<close> says whether the memory pool, if there is one, has a transaction.\<close>

definition needToBuild :: "node \<Rightarrow> VM \<Rightarrow> bool \<Rightarrow> bool" where
  "needToBuild N vm pending =
     (if hasProcessingBlocks vm then False
      else if PegReserveAt (n_params N) (tipHeight (vm_chain vm) + 1) > 0 then True
      else pending)"

definition BuildBlock :: "hashes \<Rightarrow> node \<Rightarrow> VM \<Rightarrow> verr + BlockAdapter" where
  "BuildBlock H N vm =
     (if broken vm then Inl Broken
      else if hasProcessingBlocks vm then Inl BlockProcessing
      else case n_template N (vm_chain vm) of
        None \<Rightarrow> Inl NoTemplate
      | Some (b, height) \<Rightarrow>
          bindr (newBlockAdapter H (b\<lparr>Header := Header b\<lparr>Nonce := 0\<rparr>\<rparr>) height) (\<lambda>a.
          if a_parentID a \<noteq> lastAccepted vm then Inl NotOnLastAccepted else Inr a))"

definition Verify :: "hashes \<Rightarrow> node \<Rightarrow> int \<Rightarrow> BlockAdapter \<Rightarrow> VM \<Rightarrow> (verr + unit) \<times> VM" where
  "Verify H N adjusted a vm =
     (if broken vm then (Inl Broken, vm)
      else if a_parentID a \<noteq> lastAccepted vm then (Inl ParentNotAccepted, vm)
      else if int (a_height a) \<noteq> tipHeight (vm_chain vm) + 1 then (Inl WrongHeight, vm)
      else case CheckConnectBlockTemplate H N adjusted (vm_chain vm) (a_block a) of
        Inl e \<Rightarrow> (Inl (FailedValidation e), vm)
      | Inr _ \<Rightarrow> (Inr (), vm\<lparr>verifiedBlocks := store (verifiedBlocks vm) (a_id a) a\<rparr>))"

definition brokenBy :: "VM \<Rightarrow> VM" where
  "brokenBy vm = vm\<lparr>broken := True\<rparr>"

text \<open>
  What storage does while a block is accepted: nothing fails; connecting fails, with any ledger left in memory; or
  writing to disk fails.  A failure may leave the block on disk or not, never a part of it.
\<close>

datatype storage = StorageFine | ConnectingFails ledger bool | PersistFails bool

definition accept :: "hashes \<Rightarrow> node \<Rightarrow> int \<Rightarrow> storage \<Rightarrow> BlockAdapter \<Rightarrow> VM \<Rightarrow> (verr + unit) \<times> VM" where
  "accept H N adjusted st a vm =
     (if a_parentID a \<noteq> lastAccepted vm then (Inl ParentNotAccepted, vm)
      else if broken vm then (Inl Broken, vm)
      else let (r, l) = ProcessBlock H N adjusted (vm_chain vm) (a_block a) in
        case st of
          ConnectingFails wreck wrote \<Rightarrow>
            (Inl ConnectFailed, brokenBy (vm\<lparr>vm_chain := wreck, vm_disk := (if wrote \<and> r = Inr (True, False) then l else vm_disk vm)\<rparr>))
        | _ \<Rightarrow> (case r of
            Inl e \<Rightarrow> (Inl ConnectFailed,
              (if isRuleError e then id else brokenBy) (vm\<lparr>vm_chain := l, vm_disk := (vm_disk vm)\<lparr>l_index := l_index l\<rparr>\<rparr>))
          | Inr (isMainChain, isOrphan) \<Rightarrow>
              if isOrphan \<or> \<not> isMainChain then (Inl NotTheTip, brokenBy (vm\<lparr>vm_chain := l\<rparr>))
              else (case st of
                  PersistFails wrote \<Rightarrow> (Inl PersistFailed, brokenBy (vm\<lparr>vm_chain := l, vm_disk := (if wrote then l else vm_disk vm)\<rparr>))
                | _ \<Rightarrow> (Inr (), vm\<lparr>vm_chain := l, vm_disk := l, verifiedBlocks := remove (verifiedBlocks vm) (a_id a), lastAccepted := a_id a\<rparr>))))"

definition Reject :: "BlockAdapter \<Rightarrow> VM \<Rightarrow> VM" where
  "Reject a vm = vm\<lparr>verifiedBlocks := remove (verifiedBlocks vm) (a_id a)\<rparr>"

definition SetPreference :: "bytes \<Rightarrow> VM \<Rightarrow> VM" where
  "SetPreference blockID vm = vm\<lparr>preferred := blockID\<rparr>"

text \<open>\<open>Initialize\<close> on what the disk holds.\<close>

definition Initialize :: "ledger \<Rightarrow> VM" where
  "Initialize disk = \<lparr>vm_chain = disk, vm_disk = disk, preferred = tipHash disk, lastAccepted = tipHash disk, verifiedBlocks = [], broken = False\<rparr>"

definition genesisLedger :: "hashes \<Rightarrow> MsgBlock \<Rightarrow> ledger" where
  "genesisLedger H g = (let hash = BlockHash H (Header g) in \<lparr>l_main = [(hash, g)], l_view = [], l_index = [hash]\<rparr>)"

text \<open>What happens to a virtual machine: the calls of the consensus engine in any order, and a crash or restart at any moment.\<close>

inductive happens :: "hashes \<Rightarrow> node \<Rightarrow> VM \<Rightarrow> VM \<Rightarrow> bool" for H N where
  verify: "newBlockAdapter H b height = Inr a \<Longrightarrow> happens H N vm (snd (Verify H N adjusted a vm))"
| accept: "newBlockAdapter H b height = Inr a \<Longrightarrow> happens H N vm (snd (accept H N adjusted st a vm))"
| reject: "happens H N vm (Reject a vm)"
| preference: "happens H N vm (SetPreference blockID vm)"
| restart: "happens H N vm (Initialize (vm_disk vm))"

section \<open>The chain\<close>

fun linked :: "hashes \<Rightarrow> (bytes \<times> MsgBlock) list \<Rightarrow> bool" where
  "linked H [] = False"
| "linked H [(h, b)] = (h = BlockHash H (Header b))"
| "linked H ((h, b) # (h', b') # rest) = (h = BlockHash H (Header b) \<and> PrevBlock (Header b) = h' \<and> linked H ((h', b') # rest))"

definition goodLedger :: "hashes \<Rightarrow> node \<Rightarrow> ledger \<Rightarrow> bool" where
  "goodLedger H N l \<longleftrightarrow> linked H (l_main l) \<and> distinct (map fst (l_main l)) \<and> fst ` set (l_main l) \<subseteq> set (l_index l)
     \<and> connected H (n_params N) (length (l_main l) - 1) (l_view l)"

lemma linked_ne: "linked H m \<Longrightarrow> m \<noteq> []" by auto

lemma linked_Cons: "linked H m \<Longrightarrow> PrevBlock (Header b) = fst (hd m) \<Longrightarrow> linked H ((BlockHash H (Header b), b) # m)"
  by (cases m) auto

lemma goodLedger_extend:
  assumes "goodLedger H N l" "PrevBlock (Header b) = tipHash l" "BlockHash H (Header b) \<notin> set (l_index l)"
    and "checkBlockSanity H b adjusted = Inr ()" "checkConnectBlock H N l b = Inr view"
  shows "goodLedger H N (l\<lparr>l_index := BlockHash H (Header b) # l_index l, l_main := (BlockHash H (Header b), b) # l_main l, l_view := view\<rparr>)"
proof -
  obtain n where n: "length (l_main l) = Suc n" using assms(1) linked_ne by (cases "l_main l") (auto simp: goodLedger_def)
  have "connectValues H (n_params N) (int (Suc n)) (Transactions b) (l_view l) = Inr view"
    using assms(5) n by (auto simp: checkConnectBlock_def tipHeight_def add.commute)
  moreover have "connected H (n_params N) n (l_view l)" using assms(1) n by (simp add: goodLedger_def)
  ultimately have "connected H (n_params N) (Suc n) view" using assms(4) by (intro connected.block)
  moreover have "BlockHash H (Header b) \<notin> fst ` set (l_main l)" using assms(1,3) by (auto simp: goodLedger_def)
  ultimately show ?thesis using assms(1,2) n by (auto simp: goodLedger_def linked_Cons tipHash_def)
qed

lemma ProcessBlock_tip:
  assumes "goodLedger H N l" "PrevBlock (Header b) = tipHash l" "ProcessBlock H N adjusted l b = (r, l')"
  shows "(\<exists>e. r = Inl e) \<and> l_main l' = l_main l \<and> l_view l' = l_view l \<and> goodLedger H N l'
    \<or> r = Inr (True, False) \<and> l_main l' = (BlockHash H (Header b), b) # l_main l \<and> goodLedger H N l'"
proof -
  have "tipHash l \<in> set (l_index l)"
    using assms(1) linked_ne by (cases "l_main l") (auto simp: goodLedger_def tipHash_def)
  moreover have "goodLedger H N (l\<lparr>l_index := h # l_index l\<rparr>)" for h using assms(1) by (auto simp: goodLedger_def)
  ultimately show ?thesis using assms goodLedger_extend [OF assms(1,2), where adjusted = adjusted]
    by (auto simp: ProcessBlock_def extendTip_def Let_def split: if_splits sum.splits)
qed

definition sound :: "hashes \<Rightarrow> node \<Rightarrow> VM \<Rightarrow> bool" where
  "sound H N vm \<longleftrightarrow> goodLedger H N (vm_disk vm)
     \<and> (\<not> broken vm \<longrightarrow> goodLedger H N (vm_chain vm) \<and> l_main (vm_chain vm) = l_main (vm_disk vm) \<and> l_view (vm_chain vm) = l_view (vm_disk vm)
          \<and> lastAccepted vm = tipHash (vm_disk vm))"

lemma sound_Initialize: "goodLedger H N disk \<Longrightarrow> sound H N (Initialize disk)"
  using linked_ne by (cases "l_main disk") (auto simp: sound_def Initialize_def tipHash_def goodLedger_def)

lemma sound_genesis: "sound H N (Initialize (genesisLedger H g))"
  by (rule sound_Initialize) (simp add: goodLedger_def genesisLedger_def Let_def connected.genesis)

lemma adapter_sel:
  assumes "newBlockAdapter H b height = Inr a"
  shows "a_block a = b" "a_id a = BlockHash H (Header b)" "a_parentID a = PrevBlock (Header b)"
  using assms by (auto simp: newBlockAdapter_def split: if_splits)

text \<open>Accepting a block keeps the machine sound and takes nothing from the disk.\<close>

lemma accept_sound:
  assumes "sound H N vm" "newBlockAdapter H b height = Inr a" "accept H N adjusted st a vm = (r, vm')"
  shows "sound H N vm' \<and> suffix (l_main (vm_disk vm)) (l_main (vm_disk vm')) \<and> (r = Inr () \<longrightarrow> l_main (vm_disk vm') = (a_id a, b) # l_main (vm_disk vm))"
proof (cases "a_parentID a \<noteq> lastAccepted vm \<or> broken vm")
  case True
  then have "vm' = vm \<and> r \<noteq> Inr ()" using assms(3) by (cases "a_parentID a = lastAccepted vm") (auto simp: accept_def)
  then show ?thesis using assms(1) by simp
next
  case False
  note a = adapter_sel [OF assms(2)]
  let ?chain = "vm_chain vm" and ?disk = "vm_disk vm"
  have c: "goodLedger H N ?chain" "l_main ?chain = l_main ?disk" "l_view ?chain = l_view ?disk" "lastAccepted vm = tipHash ?disk" "goodLedger H N ?disk"
    using assms(1) False by (auto simp: sound_def)
  have tip: "PrevBlock (Header b) = tipHash ?chain" using False c a by (simp add: tipHash_def)
  obtain q l where p: "ProcessBlock H N adjusted ?chain b = (q, l)" by fastforce
  consider (no) e where "q = Inl e" "l_main l = l_main ?disk" "l_view l = l_view ?disk" "goodLedger H N l"
    | (yes) "q = Inr (True, False)" "l_main l = (BlockHash H (Header b), b) # l_main ?disk" "goodLedger H N l"
    using ProcessBlock_tip [OF c(1) tip p] c by auto
  then show ?thesis
  proof cases
    case no
    have "goodLedger H N (?disk\<lparr>l_index := l_index l\<rparr>)" using no c by (simp add: goodLedger_def)
    then show ?thesis using assms(1,3) False no c p a
      by (auto simp: accept_def sound_def brokenBy_def tipHash_def split: storage.splits if_splits)
  next
    case yes
    then show ?thesis using assms(1,3) False c p a
      by (auto simp: accept_def sound_def brokenBy_def tipHash_def suffix_def split: storage.splits if_splits)
  qed
qed

lemma Verify_same:
  "vm_chain (snd (Verify H N adjusted a vm)) = vm_chain vm \<and> vm_disk (snd (Verify H N adjusted a vm)) = vm_disk vm
   \<and> lastAccepted (snd (Verify H N adjusted a vm)) = lastAccepted vm \<and> broken (snd (Verify H N adjusted a vm)) = broken vm"
  by (simp add: Verify_def split: sum.split)

lemma happens_sound:
  assumes "happens H N vm vm'" "sound H N vm"
  shows "sound H N vm' \<and> suffix (l_main (vm_disk vm)) (l_main (vm_disk vm'))"
  using assms
proof cases
  case (verify b height a adjusted)
  then show ?thesis using assms(2) Verify_same [of H N adjusted a vm] by (simp add: sound_def)
next
  case (accept b height a adjusted st)
  then show ?thesis using accept_sound [OF assms(2) accept(2), of adjusted st] by (cases "Lifecycle.accept H N adjusted st a vm") simp
next
  case reject
  then show ?thesis using assms(2) by (simp add: sound_def Reject_def)
next
  case preference
  then show ?thesis using assms(2) by (simp add: sound_def SetPreference_def)
next
  case restart
  then show ?thesis using assms(2) sound_Initialize [of H N "vm_disk vm"] by (simp add: sound_def Initialize_def)
qed

lemma history_sound:
  assumes "(happens H N)\<^sup>*\<^sup>* vm vm'" "sound H N vm"
  shows "sound H N vm' \<and> suffix (l_main (vm_disk vm)) (l_main (vm_disk vm'))"
  using assms(1)
proof induction
  case (step y z)
  then show ?case using happens_sound [OF step.hyps(2)] by (meson suffix_order.order_trans)
qed (use assms(2) in simp)

lemma tipHeight_Suc: "linked H (l_main l) \<Longrightarrow> tipHeight l = int (length (l_main l) - 1)"
  using linked_ne by (cases "l_main l") (auto simp: tipHeight_def)

lemma BlockByHash_member:
  assumes "suffix ((h, b) # m) (l_main l)" "distinct (map fst (l_main l))"
  shows "BlockByHash l h = Some (b, int (length m))"
proof -
  obtain xs where xs: "l_main l = xs @ (h, b) # m" using assms(1) by (auto simp: suffix_def)
  then have "h \<notin> fst ` set xs" using assms(2) by simp
  then have "dropWhile (\<lambda>(h', b). h' \<noteq> h) (xs @ (h, b) # m) = (h, b) # m"
    by (induction xs) auto
  then show ?thesis by (simp add: BlockByHash_def xs)
qed

section \<open>Parsing\<close>

lemma parse_canonical:
  assumes "wf_MsgBlock b" "getBlock H vm (BlockHash H (Header b)) = Inl NotFound" "Transactions b = cb # txs"
    and "ExtractCoinbaseHeight cb = Inr height"
  shows "parseBlockAdapter H vm (MsgBlock_BtcEncode WitnessEncoding b) = newBlockAdapter H b height"
  using assms by (simp add: parseBlockAdapter_def block_rt)

lemma encode_inj: "wf_MsgBlock b \<Longrightarrow> wf_MsgBlock b' \<Longrightarrow> MsgBlock_BtcEncode WitnessEncoding b = MsgBlock_BtcEncode WitnessEncoding b' \<Longrightarrow> b = b'"
  by (metis block_rt sum.inject(2))

section \<open>Sample values\<close>

text \<open>A node with nothing more to refuse, and the sample block wrapped.\<close>

definition sampleNode :: node where
  "sampleNode = \<lparr>n_params = sampleParams, n_bip34 = 0, n_bip65 = 0, n_bip66 = 0, n_context = (\<lambda>l b. Inr ()), n_blockTime = (\<lambda>l b. 0),
     n_sigOps = (\<lambda>l b. Inr ()), n_scripts = (\<lambda>l b. Inr ()), n_side = (\<lambda>l b. (Inr (False, False), l)), n_template = (\<lambda>l. Some (sampleBlock, 1))\<rparr>"

definition sampleVM :: VM where
  "sampleVM = Initialize (genesisLedger sampleHashes sampleGenesis)"

definition sampleAdapter :: BlockAdapter where
  "sampleAdapter = \<lparr>a_block = sampleBlock, a_id = BlockHash sampleHashes (Header sampleBlock), a_parentID = PrevBlock (Header sampleBlock),
     a_height = 1, a_timestamp = Timestamp (Header sampleBlock), a_bytes = MsgBlock_BtcEncode WitnessEncoding sampleBlock\<rparr>"

lemma sample_adapter: "newBlockAdapter sampleHashes sampleBlock 1 = Inr sampleAdapter"
  by (simp add: newBlockAdapter_def sampleAdapter_def BlockHeightUnknown_def)

lemma sample_accepted: "fst (accept sampleHashes sampleNode (1700000000 * second) StorageFine sampleAdapter sampleVM) = Inr ()"
  by code_simp

lemma sample_unknown: "getBlock sampleHashes sampleVM (BlockHash sampleHashes (Header sampleBlock)) = Inl NotFound"
  by code_simp

text \<open>The same header over another coinbase.\<close>

definition otherBlock :: MsgBlock where
  "otherBlock = sampleBlock\<lparr>Transactions := [sampleCoinbase\<lparr>TxOut := []\<rparr>]\<rparr>"

lemma sample_heights: "ExtractCoinbaseHeight sampleCoinbase = Inr 1" "ExtractCoinbaseHeight (sampleCoinbase\<lparr>TxOut := []\<rparr>) = Inr 1"
  by code_simp+

lemma sample_wf: "wf_MsgBlock sampleBlock" "wf_MsgBlock otherBlock" "sampleBlock \<noteq> otherBlock"
  by code_simp+

section \<open>Properties\<close>



text \<open>C5: once \<open>accept\<close> has returned without an error, the block stays: whatever happens later, failures of storage and
  restarts included, the disk holds this very block at the same height.\<close>

theorem accepted_block_stays:
  assumes "(happens H N)\<^sup>*\<^sup>* (Initialize (genesisLedger H g)) vm" "newBlockAdapter H b height = Inr a"
    and "accept H N adjusted st a vm = (Inr (), vm')" "(happens H N)\<^sup>*\<^sup>* vm' later"
  shows "BlockByHash (vm_disk later) (a_id a) = Some (b, tipHeight (vm_disk vm'))"
proof -
  have "sound H N vm" using history_sound [OF assms(1) sound_genesis] by simp
  then have acc: "sound H N vm'" "l_main (vm_disk vm') = (a_id a, b) # l_main (vm_disk vm)"
    using accept_sound [OF _ assms(2,3)] by auto
  from history_sound [OF assms(4) acc(1)] have "sound H N later" "suffix ((a_id a, b) # l_main (vm_disk vm)) (l_main (vm_disk later))"
    by (simp_all add: acc(2))
  then have "BlockByHash (vm_disk later) (a_id a) = Some (b, int (length (l_main (vm_disk vm))))"
    by (intro BlockByHash_member) (simp_all add: sound_def goodLedger_def)
  then show ?thesis by (simp add: tipHeight_def acc(2))
qed

theorem accepted_block_stays_witness:
  "\<exists>vm'. accept sampleHashes sampleNode (1700000000 * second) StorageFine sampleAdapter sampleVM = (Inr (), vm')
     \<and> BlockByHash (vm_disk (Initialize (vm_disk vm'))) (a_id sampleAdapter) = Some (sampleBlock, tipHeight (vm_disk vm'))"
proof -
  obtain vm' where a: "accept sampleHashes sampleNode (1700000000 * second) StorageFine sampleAdapter sampleVM = (Inr (), vm')"
    using sample_accepted by (metis prod.collapse)
  have "(happens sampleHashes sampleNode)\<^sup>*\<^sup>* vm' (Initialize (vm_disk vm'))" using happens.restart by (rule r_into_rtranclp)
  from accepted_block_stays [OF _ sample_adapter a this, of sampleGenesis] a show ?thesis by (auto simp: sampleVM_def)
qed

text \<open>C38: a block whose coinbase starts with the script the builder writes for its height parses, at any machine that
  does not have it yet, as the same block with the same height.\<close>

theorem built_block_parses:
  assumes "wf_MsgBlock b" "Transactions b = cb # txs" "TxIn cb = ti # tis" "standardCoinbaseScript height nonce = Inr (SignatureScript ti)"
    and "0 \<le> height" "height < 2 ^ 31" "newBlockAdapter H b height = Inr a" "getBlock H vm (a_id a) = Inl NotFound"
  shows "ParseBlock H vm (a_bytes a) = Inr a"
proof -
  have "ExtractCoinbaseHeight cb = Inr height" using built_height [OF assms(4,5,6,3)] by simp
  moreover have a: "a_bytes a = MsgBlock_BtcEncode WitnessEncoding b" "a_id a = BlockHash H (Header b)"
    using assms(7) by (auto simp: newBlockAdapter_def split: if_splits)
  ultimately have "parseBlockAdapter H vm (a_bytes a) = Inr a" using assms(1,2,7,8) by (simp add: parse_canonical)
  then show ?thesis using assms(8) by (simp add: ParseBlock_def)
qed

theorem built_block_parses_witness: "ParseBlock sampleHashes sampleVM (a_bytes sampleAdapter) = Inr sampleAdapter"
proof -
  have "standardCoinbaseScript 1 0 = Inr (SignatureScript (hd (TxIn sampleCoinbase)))" by code_simp
  moreover have "Transactions sampleBlock = sampleCoinbase # []" by (simp add: sampleBlock_def)
  moreover have "TxIn sampleCoinbase = hd (TxIn sampleCoinbase) # []" by code_simp
  moreover have "getBlock sampleHashes sampleVM (a_id sampleAdapter) = Inl NotFound" using sample_unknown by (simp add: sampleAdapter_def)
  ultimately show ?thesis using built_block_parses [OF sample_wf(1) _ _ _ _ _ sample_adapter] by force
qed

text \<open>C40: parsing does not look at the root of the transactions: two different blocks under one header both parse, with
  different bytes and the same identifier, so the test for the canonical encoding does not give an identifier one byte
  representation.\<close>

theorem id_leaves_transactions_open:
  assumes "wf_MsgBlock b" "wf_MsgBlock b'" "Header b' = Header b" "b \<noteq> b'"
    and "Transactions b = cb # txs" "ExtractCoinbaseHeight cb = Inr height" "Transactions b' = cb' # txs'" "ExtractCoinbaseHeight cb' = Inr height'"
    and "0 \<le> height" "0 \<le> height'" "getBlock H vm (BlockHash H (Header b)) = Inl NotFound"
  shows "\<exists>a a'. ParseBlock H vm (MsgBlock_BtcEncode WitnessEncoding b) = Inr a \<and> ParseBlock H vm (MsgBlock_BtcEncode WitnessEncoding b') = Inr a'
     \<and> a_id a = a_id a' \<and> a_bytes a \<noteq> a_bytes a'"
  using assms parse_canonical [of b H vm cb txs height] parse_canonical [of b' H vm cb' txs' height'] encode_inj [of b b']
  by (auto simp: ParseBlock_def newBlockAdapter_def BlockHeightUnknown_def)

theorem id_leaves_transactions_open_witness:
  "\<exists>a a'. ParseBlock sampleHashes sampleVM (MsgBlock_BtcEncode WitnessEncoding sampleBlock) = Inr a
     \<and> ParseBlock sampleHashes sampleVM (MsgBlock_BtcEncode WitnessEncoding otherBlock) = Inr a' \<and> a_id a = a_id a' \<and> a_bytes a \<noteq> a_bytes a'"
proof -
  have t: "Transactions sampleBlock = [sampleCoinbase]" "Transactions otherBlock = [sampleCoinbase\<lparr>TxOut := []\<rparr>]" "Header otherBlock = Header sampleBlock"
    by (simp_all add: sampleBlock_def otherBlock_def)
  from id_leaves_transactions_open [OF sample_wf(1,2) t(3) sample_wf(3) t(1) sample_heights(1) t(2) sample_heights(2) _ _ sample_unknown]
  show ?thesis by simp
qed

end
