(* ===== verification/Spec2Isabelle.thy ===== *)
theory Spec2Isabelle
  imports Served Lifecycle
begin

text \<open>
  A verification development for the two-way peg between Dogecoin and the DogecoinVM chain: the program
  \<open>cmd/dogevm\<close>, the parts of \<open>btcd\<close> it builds on, and the life of a block in the virtual machine (\<open>vm\<close>).

  \<^bold>\<open>The program.\<close>  Users pay DOGE to a multi-signature address on Dogecoin (a deposit); the bridge
  releases coins of a reserve on DogecoinVM to them.  A payment into the reserve with a tag (a peg-out) is
  paid from the coins locked on Dogecoin.  A coordinator reads both chains (\<open>bridge.go\<close>), builds
  transactions and asks the signers for signatures; each signer (\<open>cosign.go\<close>) reads the chains itself,
  rebuilds the transaction, checks it against its log of everything it signed and only then signs.  Every
  transaction of the signers spends first the tip of a line of coins (\<open>lineage.go\<close>), so two of them
  conflict or follow one another.  A signer whose log cannot prove its past goes through a cutover
  (\<open>cutover.go\<close>): it signs only fences, which spend every coin an old signature could spend.  DogecoinVM itself is a virtual
  machine under a consensus engine: it parses and verifies blocks on top of the last accepted one, connects an
  accepted block to the ledger of \<open>btcd\<close> and writes it to disk; its coins are the reserve its first blocks create.

  \<^bold>\<open>Theories and sources.\<close>
  \<^item> \<open>Prelude\<close>, \<open>Effects\<close>, \<open>Strconv\<close>: results with errors, Go maps as association lists, effects on a
    state that keep what was written before an error, and number and hexadecimal text.
  \<^item> \<open>Wire\<close>: \<open>btcd/wire\<close> transactions in both directions, sizes, transaction identifiers, outpoint text
    (\<open>chainhash\<close>, \<open>main.go\<close>).
  \<^item> \<open>Script\<close>: script builder, tokenizer and classes of \<open>btcd/txscript\<close>.
  \<^item> \<open>Tags\<close>, \<open>Amounts\<close>: \<open>tags.go\<close> and \<open>params.go\<close>.
  \<^item> \<open>Peg\<close>: the records of \<open>signers.go\<close>, \<open>chains.go\<close> and \<open>bridge.go\<close>; redeem scripts and assembling.
  \<^item> \<open>Tiers\<close>: \<open>tiers.go\<close> and the policy of a set.
  \<^item> \<open>Lineage\<close>: \<open>lineage.go\<close>.
  \<^item> \<open>Build\<close>: coin selection, releases, payouts and cancellations of \<open>bridge.go\<close>.
  \<^item> \<open>Load\<close>: \<open>load\<close> and \<open>audit\<close> of \<open>bridge.go\<close>.
  \<^item> \<open>Signing\<close>: signature hashes (\<open>txscript/sighash.go\<close>), signing and verifying inputs
    (\<open>signers.go\<close>), gathering signatures (\<open>authorize\<close> of \<open>cosign.go\<close>), and whose signature a
    transaction carries (\<open>fence.go\<close>).
  \<^item> \<open>SigningLog\<close>: the signing log of \<open>cosign.go\<close> and the evidence of \<open>evidence.go\<close>.
  \<^item> \<open>Cutover\<close>, \<open>Fence\<close>: \<open>cutover.go\<close>.
  \<^item> \<open>Auth\<close>: the authentication of requests to a signer (\<open>authenticate\<close> and the nonces of \<open>cosign.go\<close>).
  \<^item> \<open>Cosigner\<close>: registering addresses (\<open>registry.go\<close>, \<open>main.go\<close>), pausing (\<open>pause.go\<close>), catching up, and
    signatures the log lacks (\<open>fence.go\<close>: quarantine and adoption).
  \<^item> \<open>Check\<close>: what a signer checks before it signs, signing, and its status (\<open>check\<close>, \<open>handleSign\<close> and
    \<open>handleStatus\<close> of \<open>cosign.go\<close>).
  \<^item> \<open>Served\<close>: the requests a signer serves, in any order, as a step relation.
  \<^item> \<open>Merkle\<close>: the Merkle root of a block, as a tree in an array and rolling (\<open>merkle.go\<close>, \<open>rolling_merkle.go\<close>).
  \<^item> \<open>Blocks\<close>: the format of blocks (\<open>blockheader.go\<close>, \<open>msgblock.go\<close>), the checks that need no chain
    (\<open>validate.go\<close>), and the height in the coinbase (\<open>mining.go\<close>).
  \<^item> \<open>Supply\<close>: the outputs and their value as blocks are connected (\<open>validate.go\<close>, \<open>utxoviewpoint.go\<close>), and the
    peg reserve (\<open>chaincfg/params.go\<close>).
  \<^item> \<open>Lifecycle\<close>: \<open>vm/block_adapter.go\<close>, the blocks of \<open>vm/vm.go\<close>, and the ledger they are connected to
    (\<open>process.go\<close>, \<open>chain.go\<close>, \<open>validate.go\<close>).

  \<^bold>\<open>How the code is modelled.\<close>  A struct is a record, an error return is \<open>Inl\<close>, a handler that changes the
  signer is an effect from its state to a result and a state.  Go maps are association lists; where the code
  ranges over a map the model takes the order of the list.  \<open>sort.Slice\<close> is a stable sort.  Amounts are
  mathematical integers except where the code guards or relies on 64 bits.  SHA-256, RIPEMD-160
  and ECDSA are parameters, with \<open>ecdsa_ok\<close> (a signature verifies under the key that made it) as the
  only law used.  A chain node is a record of functions that answer or fail, a file is absent, unreadable or
  its contents, an address is its output script.  Of the rules of a block, difficulty, median times, the cost and
  the execution of scripts, side chains and the template are functions a node has, of which nothing is assumed;
  what storage does during an accept is an argument, and a failure leaves a block on disk wholly or not at all.

  \<^bold>\<open>What the lemmas show.\<close>  Encodings read back (transactions, outpoints, tags, amounts, tiers, the log);
  sizes are those of the bytes written; the tip of a line is unspent, is the same for every listing of
  the chain, and the walk to it ends within its bound; every transaction built conserves value and pays
  only its destination and the signers; the state read from the chains trusts tags only from the signers
  and owes each deposit once; an authorized transaction is signed by a quorum; one action has one key in the
  log, and the log keeps what was signed; the fees counted as promised cover those that can
  still be charged; a cutover records every coin an old signature could spend, ends only once they are
  cleared, and does end then; fences return to the set, are no larger than priced, stay in the budget of
  the signer, and together in the surplus while fewer than a quorum are dishonest; a request is accepted only
  once; over any sequence of requests a signer logs what it signs, never forgets it, signs a
  second transaction of an action only if the two conflict, never a release after a refund, and nothing in quarantine.
  The rolling Merkle root is that of the tree; a built block reads back with its height; no sequence of blocks makes
  more coins than the reserve; and whatever the engine calls and storage does, the disk holds a chain the rules
  connect, with every block ever accepted.

  \<^bold>\<open>Bounds.\<close>  The walks along a line have the fuel of the code (one step per coin and one or two more),
  shown to be enough on consistent histories; \<open>trimToSize\<close> and the script loops terminate by length; the
  loops of the rolling Merkle root are partial functions, shown to return.

  \<^bold>\<open>Not modelled.\<close>  The \<open>btcd\<close> server, peers, memory pool and databases, script execution, difficulty and
  reorganisations, JSON, HTTP and the web pages, files and locks, key generation, address text, timers, and the
  coordinator's loop: I/O, or code the parts above only call.  Words of an approvals file are separated by ASCII
  space, and the rows of a map are in one order where the code takes any.
\<close>

end
